theory Spec2Isabelle
  imports Main "HOL-Library.Word"
begin

section \<open>Constants of package tpu\<close>

text \<open>
  The three package variables of \<^verbatim>\<open>rpc/tpu/tpu_client.go\<close>, all of Go type
  \<^verbatim>\<open>uint64\<close>. Nothing in the package assigns to them.
\<close>

type_synonym uint64 = "64 word"

definition MAX_SLOT_SKIP_DISTANCE :: uint64 where
  "MAX_SLOT_SKIP_DISTANCE = 48"

definition DEFAULT_FANOUT_SLOTS :: uint64 where
  "DEFAULT_FANOUT_SLOTS = 12"

definition MAX_FANOUT_SLOTS :: uint64 where
  "MAX_FANOUT_SLOTS = 100"

section \<open>Conversions between uint64 and float64\<close>

text \<open>
  The package stores slots as \<^verbatim>\<open>float64\<close> and clamps fan-out sizes through
  \<^verbatim>\<open>math.Min\<close> and \<^verbatim>\<open>math.Max\<close>. Every \<^verbatim>\<open>float64\<close> it ever holds is the
  conversion of a \<^verbatim>\<open>uint64\<close>, or a minimum or maximum of such values and the
  constants 1, 100 and 200: a non-negative integer of at most \<open>2 ^ 64\<close>. The model
  carries such a value as the natural number it denotes. On these values the
  floating-point order, \<^verbatim>\<open>math.Min\<close> and \<^verbatim>\<open>math.Max\<close> are the order, \<open>min\<close> and
  \<open>max\<close> of the naturals.

  \<^verbatim>\<open>float64(u)\<close> rounds to 53 significant bits, to nearest, ties to even:
  \<open>ulp_exp n\<close> is the number of low bits that do not fit, and
  \<open>round_to_even e n\<close> rounds \<open>n\<close> to a multiple of \<open>2 ^ e\<close>.
\<close>

type_synonym float64 = nat

function ulp_exp :: "nat \<Rightarrow> nat" where
  "ulp_exp n = (if n < 2 ^ 53 then 0 else Suc (ulp_exp (n div 2)))"
  by pat_completeness auto
termination
  by (relation "measure (\<lambda>n. n)") auto

definition round_to_even :: "nat \<Rightarrow> nat \<Rightarrow> nat" where
  "round_to_even e n =
     (let q = n div 2 ^ e; r = n mod 2 ^ e
      in if 2 * r > 2 ^ e \<or> (2 * r = 2 ^ e \<and> odd q) then (q + 1) * 2 ^ e else q * 2 ^ e)"

definition float64_of_uint64 :: "uint64 \<Rightarrow> float64" where
  "float64_of_uint64 u = round_to_even (ulp_exp (unat u)) (unat u)"

text \<open>
  \<^verbatim>\<open>uint64(f)\<close> is exact for an integer-valued \<open>f\<close> below \<open>2 ^ 64\<close>. For
  \<open>f = 2 ^ 64\<close> (the conversion of a slot above \<open>2 ^ 64 - 1025\<close>) Go leaves the
  result to the implementation; the theorems that read the number a converted
  sample denotes assume the sample is below \<open>2 ^ 64\<close>.
\<close>

definition uint64_of_float64 :: "float64 \<Rightarrow> uint64" where
  "uint64_of_float64 f = of_nat f"

section \<open>Slot estimator: RecentLeaderSlots\<close>

record RecentLeaderSlots =
  RecentSlots :: "float64 list"

text \<open>\<^verbatim>\<open>Load\<close> appends the converted slot and does not trim.\<close>

definition RecentLeaderSlots_Load :: "RecentLeaderSlots \<Rightarrow> uint64 \<Rightarrow> RecentLeaderSlots" where
  "RecentLeaderSlots_Load r currentSlot =
     r\<lparr>RecentSlots := RecentSlots r @ [float64_of_uint64 currentSlot]\<rparr>"

text \<open>
  The loop \<^verbatim>\<open>for len(s) > 12 { s = s[1:] }\<close> of \<^verbatim>\<open>RecordSlot\<close>.
\<close>

function trim_window :: "float64 list \<Rightarrow> float64 list" where
  "trim_window s = (if length s > 12 then trim_window (drop 1 s) else s)"
  by pat_completeness auto
termination
  by (relation "measure length") auto

definition RecordSlot :: "RecentLeaderSlots \<Rightarrow> uint64 \<Rightarrow> RecentLeaderSlots" where
  "RecordSlot r currentSlot =
     r\<lparr>RecentSlots := trim_window (RecentSlots r @ [float64_of_uint64 currentSlot])\<rparr>"

text \<open>
  \<^verbatim>\<open>EstimatedCurrentSlot\<close>. The local \<^verbatim>\<open>recentSlots\<close> is a slice header copied
  from the receiver's field: it shares the backing array, so both in-place sorts
  are sorts of the receiver's window, and the model returns the window with the
  result. \<^verbatim>\<open>sort.Float64s\<close> leaves the ascending arrangement,
  \<^verbatim>\<open>sort.Sort(sort.Reverse(...))\<close> the descending one. \<^verbatim>\<open>maxIndex\<close> and
  \<^verbatim>\<open>medianIndex\<close> are of type \<^verbatim>\<open>int\<close> and non-negative on this path. The
  additions are \<^verbatim>\<open>uint64\<close> additions and wrap.
\<close>

definition slot_step :: "uint64 \<Rightarrow> uint64 \<Rightarrow> float64 \<Rightarrow> uint64" where
  "slot_step maxReasonableCurrentSlot slotToReturn slot =
     (if uint64_of_float64 slot \<le> maxReasonableCurrentSlot \<and> uint64_of_float64 slot > slotToReturn
      then uint64_of_float64 slot else slotToReturn)"

definition EstimatedCurrentSlot :: "RecentLeaderSlots \<Rightarrow> uint64 \<times> RecentLeaderSlots" where
  "EstimatedCurrentSlot r =
     (if length (RecentSlots r) = 0 then (0, r)
      else
        let ascending = sort (RecentSlots r);
            maxIndex = length ascending - 1;
            medianIndex = maxIndex div 2;
            medianRecentSlot = ascending ! medianIndex;
            expectedCurrentSlot = uint64_of_float64 medianRecentSlot + of_nat (maxIndex - medianIndex);
            maxReasonableCurrentSlot = expectedCurrentSlot + MAX_SLOT_SKIP_DISTANCE;
            descending = rev (sort ascending)
        in (foldl (slot_step maxReasonableCurrentSlot) 0 descending,
            r\<lparr>RecentSlots := descending\<rparr>))"


section \<open>Leader schedule cache: LeaderTPUCache\<close>

text \<open>
  A \<^verbatim>\<open>solana.PublicKey\<close> enters this file only through \<^verbatim>\<open>String()\<close>, its
  base-58 text, as the key of \<^verbatim>\<open>LeaderTPUMap\<close> and in the duplicate check; the
  model carries a key as that text.

  The query collaborator \<^verbatim>\<open>*rpc.Client\<close> is outside the repository's source:
  the model takes the answers it gives. An answer is the error's text or the
  value. A nil \<^verbatim>\<open>Connection\<close> (the zero value of the struct) is \<open>None\<close>; a
  method called through it panics.
\<close>

type_synonym PublicKey = string

record EpochInfo =
  EpochInfo_SlotsInEpoch :: uint64

record ContactInfo =
  Pubkey :: PublicKey
  TPU :: "string option"

record rpc_Client =
  GetEpochInfo :: "string + EpochInfo"
  GetSlotLeaders :: "uint64 \<Rightarrow> uint64 \<Rightarrow> string + PublicKey list"
  GetClusterNodes :: "string + ContactInfo list"

datatype failure = Error string | NilPointerPanic

record LeaderTPUCache =
  LeaderTPUMap :: "string \<rightharpoonup> string"
  Connection :: "rpc_Client option"
  FirstSlot :: uint64
  SlotsInEpoch :: uint64
  LastEpochInfoSlot :: uint64
  Leaders :: "PublicKey list"

text \<open>The zero value \<^verbatim>\<open>LeaderTPUCache{}\<close> that \<^verbatim>\<open>LeaderTPUService.Load\<close> starts from.\<close>

definition LeaderTPUCache_zero :: LeaderTPUCache where
  "LeaderTPUCache_zero =
     \<lparr>LeaderTPUMap = Map.empty, Connection = None, FirstSlot = 0, SlotsInEpoch = 0,
      LastEpochInfoSlot = 0, Leaders = []\<rparr>"

text \<open>
  \<^verbatim>\<open>FetchSlotLeaders\<close>: the count asked for is
  \<^verbatim>\<open>uint64(math.Min(float64(2*MAX_FANOUT_SLOTS), float64(slotsInEpoch)))\<close>.
\<close>

definition leader_window_length :: "uint64 \<Rightarrow> uint64" where
  "leader_window_length slotsInEpoch =
     uint64_of_float64 (min (float64_of_uint64 (2 * MAX_FANOUT_SLOTS)) (float64_of_uint64 slotsInEpoch))"

definition FetchSlotLeaders :: "LeaderTPUCache \<Rightarrow> uint64 \<Rightarrow> uint64 \<Rightarrow> failure + PublicKey list" where
  "FetchSlotLeaders c startSlot slotsInEpoch =
     (let fanout = leader_window_length slotsInEpoch
      in case Connection c of
           None \<Rightarrow> Inl NilPointerPanic
         | Some conn \<Rightarrow>
             (case GetSlotLeaders conn startSlot fanout of
                Inl err \<Rightarrow> Inl (Error err)
              | Inr slotLeaders \<Rightarrow> Inr slotLeaders))"

definition add_contact :: "(string \<rightharpoonup> string) \<Rightarrow> ContactInfo \<Rightarrow> (string \<rightharpoonup> string)" where
  "add_contact clusterTPUSockets contactInfo =
     (case TPU contactInfo of
        None \<Rightarrow> clusterTPUSockets
      | Some tpu \<Rightarrow> clusterTPUSockets(Pubkey contactInfo \<mapsto> tpu))"

definition FetchClusterTPUSockets :: "LeaderTPUCache \<Rightarrow> failure + (string \<rightharpoonup> string)" where
  "FetchClusterTPUSockets c =
     (case Connection c of
        None \<Rightarrow> Inl NilPointerPanic
      | Some conn \<Rightarrow>
          (case GetClusterNodes conn of
             Inl err \<Rightarrow> Inl (Error err)
           | Inr clusterNodes \<Rightarrow> Inr (foldl add_contact Map.empty clusterNodes)))"

text \<open>
  \<^verbatim>\<open>Load\<close> returns its error (\<open>None\<close> is \<^verbatim>\<open>nil\<close>) with the cache as the
  assignments made before the return leave it.
\<close>

definition LeaderTPUCache_Load ::
  "LeaderTPUCache \<Rightarrow> rpc_Client \<Rightarrow> uint64 \<Rightarrow> failure option \<times> LeaderTPUCache" where
  "LeaderTPUCache_Load c connection startSlot =
     (let c1 = c\<lparr>Connection := Some connection\<rparr>
      in case GetEpochInfo connection of
           Inl err \<Rightarrow> (Some (Error err), c1)
         | Inr epochInfo \<Rightarrow>
             (let c2 = c1\<lparr>SlotsInEpoch := EpochInfo_SlotsInEpoch epochInfo\<rparr>
              in case FetchSlotLeaders c2 startSlot (SlotsInEpoch c2) of
                   Inl err \<Rightarrow> (Some err, c2)
                 | Inr slotLeaders \<Rightarrow>
                     (let c3 = c2\<lparr>Leaders := slotLeaders\<rparr>
                      in case FetchClusterTPUSockets c3 of
                           Inl err \<Rightarrow> (Some err, c3)
                         | Inr clusterTPUSockets \<Rightarrow>
                             (None, c3\<lparr>LeaderTPUMap := clusterTPUSockets\<rparr>))))"

definition LastSlot :: "LeaderTPUCache \<Rightarrow> uint64" where
  "LastSlot c = FirstSlot c + of_nat (length (Leaders c)) - 1"

text \<open>
  The re-anchoring assignments of \<^verbatim>\<open>LeaderTPUService.Run\<close>, made when
  \<^verbatim>\<open>FetchSlotLeaders(currentSlot, ...)\<close> has answered: the one place of the file
  that assigns \<^verbatim>\<open>FirstSlot\<close>.
\<close>

definition Run_reanchor :: "LeaderTPUCache \<Rightarrow> uint64 \<Rightarrow> PublicKey list \<Rightarrow> LeaderTPUCache" where
  "Run_reanchor c currentSlot slotLeaders = c\<lparr>FirstSlot := currentSlot, Leaders := slotLeaders\<rparr>"

text \<open>Indexing a Go map: a missing key reads as the zero value, the empty string.\<close>

definition map_index :: "(string \<rightharpoonup> string) \<Rightarrow> string \<Rightarrow> string" where
  "map_index m k = (case m k of None \<Rightarrow> [] | Some v \<Rightarrow> v)"

text \<open>
  Modelled from the spec: \<^verbatim>\<open>CheckIfDuplicate\<close> is a function of package tpu that
  \<^verbatim>\<open>tpu_client.go\<close> calls and does not define. The spec says of its caller that it
  "deduplicates by leader identity, keeping first-seen order": the check answers
  whether the identity is already in the list.
\<close>

definition CheckIfDuplicate :: "string list \<Rightarrow> string \<Rightarrow> bool" where
  "CheckIfDuplicate alreadyCheckedLeaders leader = (leader \<in> set alreadyCheckedLeaders)"

text \<open>
  The loop of \<^verbatim>\<open>GetLeaderSockets\<close> over the remaining leaders, with its three
  variables. \<^verbatim>\<open>checkedSlots\<close> is a \<^verbatim>\<open>uint64\<close>; the test after the increment is
  an equality.
\<close>

fun leader_loop ::
  "(string \<rightharpoonup> string) \<Rightarrow> uint64 \<Rightarrow> PublicKey list \<Rightarrow> string list \<Rightarrow> string list \<Rightarrow> uint64 \<Rightarrow> string list" where
  "leader_loop m fanoutSlots [] alreadyCheckedLeaders leaderTPUSockets checkedSlots = leaderTPUSockets"
| "leader_loop m fanoutSlots (leader # rest) alreadyCheckedLeaders leaderTPUSockets checkedSlots =
     (let tpuSocket = map_index m leader;
          fresh = (tpuSocket \<noteq> [] \<and> \<not> CheckIfDuplicate alreadyCheckedLeaders leader);
          alreadyCheckedLeaders' = (if fresh then alreadyCheckedLeaders @ [leader] else alreadyCheckedLeaders);
          leaderTPUSockets' = (if fresh then leaderTPUSockets @ [tpuSocket] else leaderTPUSockets);
          checkedSlots' = checkedSlots + 1
      in if checkedSlots' = fanoutSlots then leaderTPUSockets'
         else leader_loop m fanoutSlots rest alreadyCheckedLeaders' leaderTPUSockets' checkedSlots')"

definition GetLeaderSockets :: "LeaderTPUCache \<Rightarrow> uint64 \<Rightarrow> string list" where
  "GetLeaderSockets c fanoutSlots = leader_loop (LeaderTPUMap c) fanoutSlots (Leaders c) [] [] 0"

text \<open>
  \<^verbatim>\<open>GetLeaderSocketsConverted\<close> is the same loop; it appends what
  \<^verbatim>\<open>net.ResolveUDPAddr("udp", tpuSocket)\<close> returns, the error dropped. The
  resolver is outside the repository and is a parameter.
\<close>

fun leader_loop_converted ::
  "(string \<Rightarrow> 'a) \<Rightarrow> (string \<rightharpoonup> string) \<Rightarrow> uint64 \<Rightarrow> PublicKey list \<Rightarrow> string list \<Rightarrow> 'a list \<Rightarrow> uint64 \<Rightarrow> 'a list" where
  "leader_loop_converted ResolveUDPAddr m fanoutSlots [] alreadyCheckedLeaders leaderTPUSockets checkedSlots =
     leaderTPUSockets"
| "leader_loop_converted ResolveUDPAddr m fanoutSlots (leader # rest) alreadyCheckedLeaders leaderTPUSockets checkedSlots =
     (let tpuSocket = map_index m leader;
          fresh = (tpuSocket \<noteq> [] \<and> \<not> CheckIfDuplicate alreadyCheckedLeaders leader);
          alreadyCheckedLeaders' = (if fresh then alreadyCheckedLeaders @ [leader] else alreadyCheckedLeaders);
          leaderTPUSockets' = (if fresh then leaderTPUSockets @ [ResolveUDPAddr tpuSocket] else leaderTPUSockets);
          checkedSlots' = checkedSlots + 1
      in if checkedSlots' = fanoutSlots then leaderTPUSockets'
         else leader_loop_converted ResolveUDPAddr m fanoutSlots rest alreadyCheckedLeaders' leaderTPUSockets' checkedSlots')"

definition GetLeaderSocketsConverted :: "(string \<Rightarrow> 'a) \<Rightarrow> LeaderTPUCache \<Rightarrow> uint64 \<Rightarrow> 'a list" where
  "GetLeaderSocketsConverted ResolveUDPAddr c fanoutSlots =
     leader_loop_converted ResolveUDPAddr (LeaderTPUMap c) fanoutSlots (Leaders c) [] [] 0"

section \<open>Client configuration: TPUClient.Load\<close>

text \<open>
  The assignment
  \<^verbatim>\<open>tpuClient.FanoutSlots = uint64(math.Max(math.Min(float64(config.FanoutSlots), float64(MAX_FANOUT_SLOTS)), 1))\<close>.
\<close>

definition TPUClient_Load_FanoutSlots :: "uint64 \<Rightarrow> uint64" where
  "TPUClient_Load_FanoutSlots config_FanoutSlots =
     uint64_of_float64
       (max (min (float64_of_uint64 config_FanoutSlots) (float64_of_uint64 MAX_FANOUT_SLOTS)) 1)"

section \<open>Fan-out sender: TPUClient.SendRawTransaction\<close>

text \<open>
  The network is outside the repository. The model takes it as a world \<open>'w\<close> with
  the three operations the sender calls: \<^verbatim>\<open>net.Dial("udp", leader)\<close> answers an
  error's text or a connection, \<^verbatim>\<open>connection.Write(transaction)\<close> an error's text
  or nothing, and each may change the world, so that two calls with the same
  arguments can differ.
\<close>

record ('w, 'c) network =
  net_Dial :: "'w \<Rightarrow> string \<Rightarrow> (string + 'c) \<times> 'w"
  conn_Write :: "'w \<Rightarrow> 'c \<Rightarrow> 8 word list \<Rightarrow> string option \<times> 'w"
  conn_Close :: "'w \<Rightarrow> 'c \<Rightarrow> 'w"

text \<open>
  What the sender did is kept as a list of events, one per call of
  \<^verbatim>\<open>net.Dial\<close> and of \<^verbatim>\<open>Write\<close>, in call order, each with the address it was for.
  The list is not a variable of the source: it is there to state which calls
  were made and how they ended.
\<close>

datatype event =
    DialFailed string string
  | Dialed string
  | WriteFailed string string
  | Written string

text \<open>
  The variables of \<^verbatim>\<open>SendRawTransaction\<close>. \<^verbatim>\<open>successes\<close> is a Go \<^verbatim>\<open>int\<close>, of
  32 or 64 bits with the platform, and \<^verbatim>\<open>successes++\<close> wraps: it is a word of
  a width \<open>'i\<close> that the model leaves open.
\<close>

record (overloaded) ('w, 'i) send_state =
  successes :: "'i word"
  lastError :: string
  events :: "event list"
  world :: 'w

text \<open>
  The inner \<^verbatim>\<open>for { ... }\<close>: dial, and after a failure dial again while
  \<^verbatim>\<open>connectionTries < 3\<close>. \<open>None\<close> is \<^verbatim>\<open>failed == true\<close>.
\<close>

function dial_loop ::
  "('w, 'c) network \<Rightarrow> string \<Rightarrow> nat \<Rightarrow> ('w, 'i::len) send_state \<Rightarrow> 'c option \<times> ('w, 'i) send_state" where
  "dial_loop net leader connectionTries st =
     (case net_Dial net (world st) leader of
        (Inl err, w') \<Rightarrow>
          (let st' = st\<lparr>lastError := err, events := events st @ [DialFailed leader err], world := w'\<rparr>
           in if connectionTries < 3 then dial_loop net leader (connectionTries + 1) st'
              else (None, st'))
      | (Inr conn, w') \<Rightarrow>
          (Some conn, st\<lparr>events := events st @ [Dialed leader], world := w'\<rparr>))"
  by pat_completeness auto
termination
  by (relation "measure (\<lambda>(net, leader, connectionTries, st). 3 - connectionTries)") auto

text \<open>
  The loop \<^verbatim>\<open>for i := 0; i < amount; i++\<close> over one connection. \<^verbatim>\<open>amount\<close> and
  \<^verbatim>\<open>i\<close> are Go \<^verbatim>\<open>int\<close>s too; \<^verbatim>\<open>i\<close> starts at 0 and is incremented only
  while it is below \<^verbatim>\<open>amount\<close>, so it never wraps, and the loop carries both as
  the integers they denote (\<open>sint amount\<close> for the parameter).
\<close>

function write_loop ::
  "('w, 'c) network \<Rightarrow> 'c \<Rightarrow> string \<Rightarrow> 8 word list \<Rightarrow> int \<Rightarrow> int \<Rightarrow> ('w, 'i::len) send_state \<Rightarrow> ('w, 'i) send_state" where
  "write_loop net connection leader transaction amount i st =
     (if i < amount then
        (case conn_Write net (world st) connection transaction of
           (Some err, w') \<Rightarrow>
             write_loop net connection leader transaction amount (i + 1)
               (st\<lparr>lastError := err, events := events st @ [WriteFailed leader err], world := w'\<rparr>)
         | (None, w') \<Rightarrow>
             write_loop net connection leader transaction amount (i + 1)
               (st\<lparr>successes := successes st + 1, events := events st @ [Written leader], world := w'\<rparr>))
      else st)"
  by pat_completeness auto
termination
  by (relation "measure (\<lambda>(net, connection, leader, transaction, amount, i, st). nat (amount - i))") auto

text \<open>The outer loop over \<^verbatim>\<open>leaderTPUSockets\<close>.\<close>

fun send_loop ::
  "('w, 'c) network \<Rightarrow> 8 word list \<Rightarrow> int \<Rightarrow> string list \<Rightarrow> ('w, 'i::len) send_state \<Rightarrow> ('w, 'i) send_state" where
  "send_loop net transaction amount [] st = st"
| "send_loop net transaction amount (leader # rest) st =
     (case dial_loop net leader 0 st of
        (None, st') \<Rightarrow> send_loop net transaction amount rest st'
      | (Some connection, st') \<Rightarrow>
          (let st'' = write_loop net connection leader transaction amount 0 st';
               st''' = st''\<lparr>world := conn_Close net (world st'') connection\<rparr>
           in send_loop net transaction amount rest st'''))"

text \<open>
  The client, as far as sending reads it: \<^verbatim>\<open>FanoutSlots\<close> and the cache reached
  through \<^verbatim>\<open>LTPUService.LTPUCache\<close>.
\<close>

record TPUClient =
  FanoutSlots :: uint64
  LTPUCache :: LeaderTPUCache

definition send_start :: "'w \<Rightarrow> ('w, 'i::len) send_state" where
  "send_start w = \<lparr>successes = 0, lastError = [], events = [], world = w\<rparr>"

definition send_result :: "('w, 'i::len) send_state \<Rightarrow> string option" where
  "send_result st = (if successes st = 0 then Some (lastError st) else None)"

text \<open>
  \<^verbatim>\<open>SendRawTransaction\<close>: \<open>None\<close> is \<^verbatim>\<open>nil\<close>, \<open>Some text\<close> is
  \<^verbatim>\<open>errors.New(text)\<close>. The final state is returned beside the result.
\<close>

definition SendRawTransaction ::
  "('w, 'c) network \<Rightarrow> TPUClient \<Rightarrow> 8 word list \<Rightarrow> 'i::len word \<Rightarrow> 'w \<Rightarrow>
     string option \<times> ('w, 'i) send_state" where
  "SendRawTransaction net tpuClient transaction amount w =
     (let leaderTPUSockets = GetLeaderSockets (LTPUCache tpuClient) (FanoutSlots tpuClient);
          st = send_loop net transaction (sint amount) leaderTPUSockets (send_start w)
      in (send_result st, st))"

subsection \<open>Reading the events\<close>

fun is_Written :: "event \<Rightarrow> bool" where
  "is_Written (Written a) = True"
| "is_Written e = False"


text \<open>
  The text of the last failed call among the events after a starting text, which
  stands when no call failed.
\<close>

fun error_text_after :: "string \<Rightarrow> event list \<Rightarrow> string" where
  "error_text_after txt [] = txt"
| "error_text_after txt (DialFailed a err # es) = error_text_after err es"
| "error_text_after txt (WriteFailed a err # es) = error_text_after err es"
| "error_text_after txt (e # es) = error_text_after txt es"

definition last_error_text :: "event list \<Rightarrow> string" where
  "last_error_text es = error_text_after [] es"


text \<open>
  What the two variables of the sender hold, in terms of the events so far:
  \<^verbatim>\<open>successes\<close> counts the writes that succeeded, in its word, and
  \<^verbatim>\<open>lastError\<close> is the text of the last failed call.
\<close>

definition send_inv :: "('w, 'i::len) send_state \<Rightarrow> bool" where
  "send_inv st \<longleftrightarrow>
     successes st = of_nat (length (filter is_Written (events st))) \<and>
     lastError st = last_error_text (events st)"

text \<open>
  The events of one send, address by address. For one address they are four
  failed dials and nothing more, or at most three failed dials, the dial that
  connected and then one write, failed or not, for each of the \<open>n\<close> repeats.
  For a list of addresses they are the events of each address, in the order of
  the list, and nothing else.
\<close>

definition write_event :: "string \<Rightarrow> string option \<Rightarrow> event" where
  "write_event a r = (case r of None \<Rightarrow> Written a | Some err \<Rightarrow> WriteFailed a err)"

definition address_events :: "nat \<Rightarrow> string \<Rightarrow> event list \<Rightarrow> bool" where
  "address_events n a seg \<longleftrightarrow>
     (\<exists>errs. length errs = 4 \<and> seg = map (DialFailed a) errs) \<or>
     (\<exists>errs results. length errs \<le> 3 \<and> length results = n \<and>
        seg = map (DialFailed a) errs @ Dialed a # map (write_event a) results)"

fun fanout_events :: "nat \<Rightarrow> string list \<Rightarrow> event list \<Rightarrow> bool" where
  "fanout_events n [] evs \<longleftrightarrow> evs = []"
| "fanout_events n (a # rest) evs \<longleftrightarrow>
     (\<exists>seg evs'. evs = seg @ evs' \<and> address_events n a seg \<and> fanout_events n rest evs')"

subsection \<open>A scripted network\<close>

text \<open>
  A network for the concrete evaluations: the world is the list of answers still
  to come to \<^verbatim>\<open>net.Dial\<close> and the list still to come to \<^verbatim>\<open>Write\<close>
  (\<open>Some text\<close> an error); a call takes the next answer, and succeeds when the
  list is used up.
\<close>

type_synonym script = "string option list \<times> string option list"

definition script_Dial :: "script \<Rightarrow> string \<Rightarrow> (string + unit) \<times> script" where
  "script_Dial w leader =
     (case w of
        ([], writes) \<Rightarrow> (Inr (), ([], writes))
      | (None # dials, writes) \<Rightarrow> (Inr (), (dials, writes))
      | (Some err # dials, writes) \<Rightarrow> (Inl err, (dials, writes)))"

definition script_Write :: "script \<Rightarrow> unit \<Rightarrow> 8 word list \<Rightarrow> string option \<times> script" where
  "script_Write w connection transaction =
     (case w of
        (dials, []) \<Rightarrow> (None, (dials, []))
      | (dials, r # writes) \<Rightarrow> (r, (dials, writes)))"

definition script_net :: "(script, unit) network" where
  "script_net = \<lparr>net_Dial = script_Dial, conn_Write = script_Write, conn_Close = (\<lambda>w connection. w)\<rparr>"

section \<open>The estimator as the specification words it\<close>


section \<open>The address list as the specification words it\<close>

text \<open>
  Deduplication keeping first-seen order, and the address list of the
  specification: of the first \<open>k\<close> leaders, those with a known address, each
  identity once, in first-seen order, as addresses.
\<close>

fun first_seen :: "'a list \<Rightarrow> 'a list" where
  "first_seen [] = []"
| "first_seen (x # xs) = x # first_seen (filter (\<lambda>y. y \<noteq> x) xs)"

definition sockets_spec :: "(string \<rightharpoonup> string) \<Rightarrow> PublicKey list \<Rightarrow> nat \<Rightarrow> string list" where
  "sockets_spec m leaders k =
     map (map_index m) (first_seen (filter (\<lambda>l. map_index m l \<noteq> []) (take k leaders)))"

section \<open>Inputs of the concrete evaluations\<close>

text \<open>
  A query collaborator: 432000 slots in the epoch, as many leaders as are asked
  for, all of one identity, and a cluster of two nodes of which one has an
  address.
\<close>

definition example_client :: rpc_Client where
  "example_client =
     \<lparr>GetEpochInfo = Inr \<lparr>EpochInfo_SlotsInEpoch = 432000\<rparr>,
      GetSlotLeaders = (\<lambda>startSlot limit. Inr (replicate (unat limit) ''A'')),
      GetClusterNodes = Inr [\<lparr>Pubkey = ''A'', TPU = Some ''addr1''\<rparr>, \<lparr>Pubkey = ''B'', TPU = None\<rparr>]\<rparr>"

text \<open>
  A collaborator whose epoch-info query fails, one whose leader query fails and
  one whose cluster query fails.
\<close>

definition failing_epoch_client :: rpc_Client where
  "failing_epoch_client = example_client\<lparr>GetEpochInfo := Inl ''epoch info unavailable''\<rparr>"

definition failing_leaders_client :: rpc_Client where
  "failing_leaders_client = example_client\<lparr>GetSlotLeaders := (\<lambda>startSlot limit. Inl ''leaders unavailable'')\<rparr>"

definition failing_nodes_client :: rpc_Client where
  "failing_nodes_client = example_client\<lparr>GetClusterNodes := Inl ''nodes unavailable''\<rparr>"

text \<open>
  The cache of the specification's example: leaders A, A, B, with A at
  \<open>addr1\<close> and B at \<open>addr2\<close>.
\<close>

definition aab_cache :: LeaderTPUCache where
  "aab_cache =
     \<lparr>LeaderTPUMap = [''A'' \<mapsto> ''addr1'', ''B'' \<mapsto> ''addr2''], Connection = None, FirstSlot = 0,
      SlotsInEpoch = 0, LastEpochInfoSlot = 0, Leaders = [''A'', ''A'', ''B'']\<rparr>"

text \<open>A client with fan-out 3 on that cache.\<close>

definition aab_client :: TPUClient where
  "aab_client = \<lparr>FanoutSlots = 3, LTPUCache = aab_cache\<rparr>"

text \<open>A client with fan-out 4 on four leaders, each with an address of its own.\<close>

definition four_client :: TPUClient where
  "four_client =
     \<lparr>FanoutSlots = 4,
      LTPUCache =
        \<lparr>LeaderTPUMap = [''A'' \<mapsto> ''addr1'', ''B'' \<mapsto> ''addr2'', ''C'' \<mapsto> ''addr3'', ''D'' \<mapsto> ''addr4''],
         Connection = None, FirstSlot = 0, SlotsInEpoch = 0, LastEpochInfoSlot = 0,
         Leaders = [''A'', ''B'', ''C'', ''D'']\<rparr>\<rparr>"

section \<open>The leader loop without its counter\<close>

text \<open>
  For the proofs: the body of the loop of \<^verbatim>\<open>GetLeaderSockets\<close> run over a whole
  list, and the number of iterations after which \<^verbatim>\<open>checkedSlots\<close>, incremented
  from its present value, first equals \<^verbatim>\<open>fanoutSlots\<close>: the distance in
  \<^verbatim>\<open>uint64\<close>, and \<open>2 ^ 64\<close> when the two are equal now.
\<close>

fun leader_scan :: "(string \<rightharpoonup> string) \<Rightarrow> PublicKey list \<Rightarrow> string list \<Rightarrow> string list \<Rightarrow> string list" where
  "leader_scan m [] alreadyCheckedLeaders leaderTPUSockets = leaderTPUSockets"
| "leader_scan m (leader # rest) alreadyCheckedLeaders leaderTPUSockets =
     (let tpuSocket = map_index m leader;
          fresh = (tpuSocket \<noteq> [] \<and> \<not> CheckIfDuplicate alreadyCheckedLeaders leader)
      in leader_scan m rest
           (if fresh then alreadyCheckedLeaders @ [leader] else alreadyCheckedLeaders)
           (if fresh then leaderTPUSockets @ [tpuSocket] else leaderTPUSockets))"

definition scan_steps :: "uint64 \<Rightarrow> uint64 \<Rightarrow> nat" where
  "scan_steps fanoutSlots checkedSlots =
     (if fanoutSlots = checkedSlots then 2 ^ 64 else unat (fanoutSlots - checkedSlots))"

section \<open>Proofs\<close>

declare ulp_exp.simps [simp del]
declare trim_window.simps [simp del]
declare dial_loop.simps [simp del]
declare write_loop.simps [simp del]

subsection \<open>Conversions through float64 and the two clamps\<close>

lemma ulp_exp_small: "n < 2 ^ 53 \<Longrightarrow> ulp_exp n = 0"
  by (subst ulp_exp.simps) simp

lemma float64_exact: "unat u < 2 ^ 53 \<Longrightarrow> float64_of_uint64 u = unat u"
  by (simp add: float64_of_uint64_def round_to_even_def ulp_exp_small)

lemma ulp_exp_quotient: "2 ^ 53 \<le> n \<Longrightarrow> 2 ^ 52 \<le> n div 2 ^ ulp_exp n"
proof (induction n rule: ulp_exp.induct)
  case (1 n)
  let ?m = "n div 2"
  have e: "ulp_exp n = Suc (ulp_exp ?m)"
    using "1.prems" by (subst ulp_exp.simps) simp
  have d: "n div 2 ^ ulp_exp n = ?m div 2 ^ ulp_exp ?m"
    by (simp add: e div_mult2_eq)
  show ?case
  proof (cases "?m < 2 ^ 53")
    case True
    then have "ulp_exp ?m = 0" by (rule ulp_exp_small)
    moreover have "2 ^ 52 \<le> ?m" using "1.prems" by simp
    ultimately show ?thesis by (simp add: d)
  next
    case False
    then have "2 ^ 52 \<le> ?m div 2 ^ ulp_exp ?m"
      using "1.IH" "1.prems" by simp
    then show ?thesis by (simp add: d)
  qed
qed

lemma round_to_even_ge: "n div 2 ^ e \<le> round_to_even e n"
proof -
  have "n div 2 ^ e \<le> n div 2 ^ e * 2 ^ e" by simp
  also have "\<dots> \<le> round_to_even e n" by (simp add: round_to_even_def Let_def)
  finally show ?thesis .
qed

lemma float64_large: "2 ^ 53 \<le> unat u \<Longrightarrow> 2 ^ 52 \<le> float64_of_uint64 u"
  unfolding float64_of_uint64_def
  by (rule order_trans [OF ulp_exp_quotient round_to_even_ge])

lemma min_float64:
  assumes "c < 2 ^ 52"
  shows "min (float64_of_uint64 u) c = min (unat u) c"
proof (cases "unat u < 2 ^ 53")
  case True
  then show ?thesis by (simp add: float64_exact)
next
  case False
  then have "2 ^ 52 \<le> float64_of_uint64 u" by (intro float64_large) simp
  with False assms show ?thesis by simp
qed

lemma word_of_nat_min:
  assumes "c < 2 ^ 64"
  shows "(of_nat (min (unat u) c) :: 64 word) = min u (of_nat c)"
proof -
  have c: "unat (of_nat c :: 64 word) = c" using assms by (simp add: unat_of_nat)
  show ?thesis
  proof (cases "unat u \<le> c")
    case True
    then have "u \<le> of_nat c" by (simp add: word_le_nat_alt c)
    with True show ?thesis by (simp add: min_def)
  next
    case False
    then have "\<not> u \<le> of_nat c" by (simp add: word_le_nat_alt c)
    with False show ?thesis by (simp add: min_def)
  qed
qed

lemma leader_window_length_min:
  "leader_window_length slotsInEpoch = min (2 * MAX_FANOUT_SLOTS) slotsInEpoch"
proof -
  have "float64_of_uint64 (2 * MAX_FANOUT_SLOTS) = 200"
    by (simp add: MAX_FANOUT_SLOTS_def float64_exact)
  then have "leader_window_length slotsInEpoch = of_nat (min (float64_of_uint64 slotsInEpoch) 200)"
    by (simp add: leader_window_length_def uint64_of_float64_def min.commute)
  also have "\<dots> = of_nat (min (unat slotsInEpoch) 200)"
    by (simp add: min_float64)
  also have "\<dots> = min slotsInEpoch (of_nat 200)"
    by (rule word_of_nat_min) simp
  finally show ?thesis by (simp add: MAX_FANOUT_SLOTS_def min.commute)
qed

lemma FanoutSlots_clamp:
  "TPUClient_Load_FanoutSlots config_FanoutSlots = max 1 (min config_FanoutSlots MAX_FANOUT_SLOTS)"
proof -
  have "float64_of_uint64 MAX_FANOUT_SLOTS = 100"
    by (simp add: MAX_FANOUT_SLOTS_def float64_exact)
  then have "TPUClient_Load_FanoutSlots config_FanoutSlots =
      of_nat (max (min (float64_of_uint64 config_FanoutSlots) 100) 1)"
    by (simp add: TPUClient_Load_FanoutSlots_def uint64_of_float64_def)
  also have "\<dots> = of_nat (max (min (unat config_FanoutSlots) 100) 1)"
    by (simp add: min_float64)
  also have "\<dots> = max 1 (min config_FanoutSlots 100)"
  proof (cases "config_FanoutSlots = 0")
    case True
    then show ?thesis by simp
  next
    case False
    then have "1 \<le> unat config_FanoutSlots" by (simp add: unat_gt_0 Suc_leI)
    then have "max (min (unat config_FanoutSlots) 100) 1 = min (unat config_FanoutSlots) 100"
      by simp
    moreover have "(of_nat (min (unat config_FanoutSlots) 100) :: 64 word) = min config_FanoutSlots (of_nat 100)"
      by (rule word_of_nat_min) simp
    moreover have "1 \<le> min config_FanoutSlots 100"
      using False by (simp add: word_le_nat_alt min_def unat_gt_0 Suc_leI)
    ultimately show ?thesis by (simp add: max_def)
  qed
  finally show ?thesis by (simp add: MAX_FANOUT_SLOTS_def)
qed

lemma FanoutSlots_range:
  "1 \<le> TPUClient_Load_FanoutSlots config_FanoutSlots \<and>
   TPUClient_Load_FanoutSlots config_FanoutSlots \<le> MAX_FANOUT_SLOTS"
  by (simp add: FanoutSlots_clamp MAX_FANOUT_SLOTS_def)

text \<open>
  A converted value is a \<^verbatim>\<open>float64\<close>: at most \<open>2 ^ 64 - 2048\<close>, the largest
  one below \<open>2 ^ 64\<close>, or \<open>2 ^ 64\<close> itself.
\<close>

lemma ulp_exp_quotient_less: "n div 2 ^ ulp_exp n < 2 ^ 53"
proof (induction n rule: ulp_exp.induct)
  case (1 n)
  show ?case
  proof (cases "n < 2 ^ 53")
    case True
    then show ?thesis by (simp add: ulp_exp_small)
  next
    case False
    then have e: "ulp_exp n = Suc (ulp_exp (n div 2))"
      by (subst ulp_exp.simps) simp
    have "n div 2 ^ ulp_exp n = (n div 2) div 2 ^ ulp_exp (n div 2)"
      by (simp add: e div_mult2_eq)
    with 1 False show ?thesis by simp
  qed
qed

lemma ulp_exp_le: "n < 2 ^ (53 + k) \<Longrightarrow> ulp_exp n \<le> k"
proof (induction k arbitrary: n)
  case 0
  then show ?case by (simp add: ulp_exp_small)
next
  case (Suc k)
  show ?case
  proof (cases "n < 2 ^ 53")
    case True
    then show ?thesis by (simp add: ulp_exp_small)
  next
    case False
    then have e: "ulp_exp n = Suc (ulp_exp (n div 2))"
      by (subst ulp_exp.simps) simp
    have "(2 :: nat) ^ (53 + Suc k) = 2 * 2 ^ (53 + k)" by (simp only: add_Suc_right power_Suc)
    with Suc.prems have "n < 2 * 2 ^ (53 + k)" by (simp only:)
    then have "n div 2 < 2 ^ (53 + k)" by (simp add: less_mult_imp_div_less mult.commute)
    then have "ulp_exp (n div 2) \<le> k" by (rule Suc.IH)
    with e show ?thesis by simp
  qed
qed

lemma scaled_mantissa_range:
  fixes m e :: nat
  assumes "m \<le> 2 ^ 53" and "e \<le> 11"
  shows "m * 2 ^ e \<le> 2 ^ 64 - 2048 \<or> m * 2 ^ e = 2 ^ 64"
proof (cases "e = 11")
  case True
  show ?thesis
  proof (cases "m = 2 ^ 53")
    case True
    with \<open>e = 11\<close> show ?thesis by simp
  next
    case False
    with assms(1) have "m \<le> 2 ^ 53 - 1" by simp
    then have "m * 2 ^ 11 \<le> (2 ^ 53 - 1) * 2 ^ 11" by (rule mult_le_mono1)
    with True show ?thesis by simp
  qed
next
  case False
  with assms(2) have "e \<le> 10" by simp
  then have "(2 :: nat) ^ e \<le> 2 ^ 10" by (intro power_increasing) simp_all
  with assms(1) have "m * 2 ^ e \<le> 2 ^ 53 * 2 ^ 10" by (rule mult_le_mono)
  then show ?thesis by simp
qed

lemma float64_range:
  "float64_of_uint64 u \<le> 2 ^ 64 - 2048 \<or> float64_of_uint64 u = 2 ^ 64"
proof -
  let ?n = "unat u"
  let ?e = "ulp_exp ?n"
  let ?q = "?n div 2 ^ ?e"
  have "?n < 2 ^ (53 + 11)" using unsigned_less [of u, where 'a = nat] by simp
  then have e: "?e \<le> 11" by (rule ulp_exp_le)
  have q: "?q < 2 ^ 53" by (rule ulp_exp_quotient_less)
  have "float64_of_uint64 u = ?q * 2 ^ ?e \<or> float64_of_uint64 u = (?q + 1) * 2 ^ ?e"
    by (simp add: float64_of_uint64_def round_to_even_def Let_def)
  then show ?thesis
  proof
    assume r: "float64_of_uint64 u = ?q * 2 ^ ?e"
    from q have "?q \<le> 2 ^ 53" by simp
    from scaled_mantissa_range [OF this e] show ?thesis by (simp only: r)
  next
    assume r: "float64_of_uint64 u = (?q + 1) * 2 ^ ?e"
    from q have "?q + 1 \<le> 2 ^ 53" by simp
    from scaled_mantissa_range [OF this e] show ?thesis by (simp only: r)
  qed
qed

subsection \<open>The sample window and the estimate\<close>

lemma trim_window_drop: "trim_window s = drop (length s - 12) s"
proof (induction s rule: trim_window.induct)
  case (1 s)
  show ?case
  proof (cases "length s > 12")
    case True
    have "trim_window s = trim_window (drop 1 s)"
      using True by (subst trim_window.simps) simp
    also have "\<dots> = drop (length (drop 1 s) - 12) (drop 1 s)"
      using 1 True by simp
    also have "\<dots> = drop (length s - 12) s"
    proof -
      have "Suc (length s - 13) = length s - 12" using True by arith
      then show ?thesis by simp
    qed
    finally show ?thesis .
  next
    case False
    then show ?thesis by (subst trim_window.simps) simp
  qed
qed

lemma RecordSlot_window:
  "RecentSlots (RecordSlot r s) =
     drop (length (RecentSlots r) - 11) (RecentSlots r @ [float64_of_uint64 s])"
  by (simp add: RecordSlot_def trim_window_drop)








lemma Estimated_window:
  "RecentSlots (snd (EstimatedCurrentSlot r)) = rev (sort (RecentSlots r))"
  by (simp add: EstimatedCurrentSlot_def Let_def sorted_sort_id)



lemma sorted_last_Max:
  fixes xs :: "nat list"
  assumes "sorted xs" and "xs \<noteq> []"
  shows "last xs = Max (set xs)"
proof -
  have "Max (set xs) = last xs"
  proof (rule Max_eqI)
    show "finite (set xs)" by simp
    show "y \<le> last xs" if "y \<in> set xs" for y
    proof -
      from that obtain i where i: "i < length xs" "y = xs ! i" by (auto simp: in_set_conv_nth)
      then have "xs ! i \<le> xs ! (length xs - 1)"
        using assms(1) by (intro sorted_nth_mono) auto
      with i assms(2) show ?thesis by (simp add: last_conv_nth)
    qed
    show "last xs \<in> set xs" using assms(2) by simp
  qed
  then show ?thesis by simp
qed

lemma descending_head:
  fixes w :: "nat list"
  assumes "w \<noteq> []"
  shows "rev (sort w) = Max (set w) # tl (rev (sort w))"
proof -
  have ne: "sort w \<noteq> []" using assms by (metis length_sort length_0_conv)
  have "hd (rev (sort w)) = last (sort w)" using ne by (simp add: hd_rev)
  also have "\<dots> = Max (set (sort w))"
    using ne by (intro sorted_last_Max) simp_all
  finally have "hd (rev (sort w)) = Max (set w)" by simp
  moreover have "rev (sort w) \<noteq> []" using ne by simp
  ultimately show ?thesis by (metis list.collapse)
qed





text \<open>
  A window of at most 12 converted slots, none of them \<open>2 ^ 64\<close>, is within
  the bound under which the arithmetic of the estimate does not wrap.
\<close>

lemma recorded_window_bound:
  assumes "length w \<le> 12"
    and "\<forall>s\<in>set w. s \<noteq> 2 ^ 64 \<and> (\<exists>u. s = float64_of_uint64 u)"
  shows "\<forall>s\<in>set w. s + length w + 48 < 2 ^ 64"
proof
  fix s assume "s \<in> set w"
  with assms(2) obtain u where "s = float64_of_uint64 u" "s \<noteq> 2 ^ 64" by blast
  with float64_range [of u] have "s \<le> 2 ^ 64 - 2048" by simp
  with assms(1) show "s + length w + 48 < 2 ^ 64" by simp
qed

subsection \<open>Claim C1: the estimate follows the specified algorithm\<close>



subsection \<open>Claim C6: the estimate is a retained sample or 0\<close>



subsection \<open>Claim C7: the window holds the 12 most recent samples\<close>



subsection \<open>Claim C8: the estimate reorders the window\<close>

text \<open>
  Claim C8. \<^verbatim>\<open>EstimatedCurrentSlot\<close> leaves the receiver's window sorted in
  descending order. On a full window the first element is then the largest
  sample, and the next \<^verbatim>\<open>RecordSlot\<close> drops that one, not the oldest arrival.
  The concrete window 1, ..., 12 (1 the oldest) loses 12 to a \<^verbatim>\<open>RecordSlot\<close>
  after an estimate, and 1 without one.
\<close>

theorem estimate_sorts_window:
  "RecentSlots (snd (EstimatedCurrentSlot r)) = rev (sort (RecentSlots r)) \<and>
   (length (RecentSlots r) = 12 \<longrightarrow>
      rev (sort (RecentSlots r)) = Max (set (RecentSlots r)) # tl (rev (sort (RecentSlots r))) \<and>
      RecentSlots (RecordSlot (snd (EstimatedCurrentSlot r)) s) =
        tl (rev (sort (RecentSlots r))) @ [float64_of_uint64 s])"
proof (intro conjI impI)
  show w: "RecentSlots (snd (EstimatedCurrentSlot r)) = rev (sort (RecentSlots r))"
    by (rule Estimated_window)
  assume l: "length (RecentSlots r) = 12"
  then have ne: "RecentSlots r \<noteq> []" by auto
  then show "rev (sort (RecentSlots r)) = Max (set (RecentSlots r)) # tl (rev (sort (RecentSlots r)))"
    by (rule descending_head)
  have "rev (sort (RecentSlots r)) \<noteq> []" using ne by (metis length_0_conv length_rev length_sort)
  with l show "RecentSlots (RecordSlot (snd (EstimatedCurrentSlot r)) s) =
        tl (rev (sort (RecentSlots r))) @ [float64_of_uint64 s]"
    by (simp add: RecordSlot_window w drop_Suc)
qed

theorem estimate_sorts_window_witness:
  "RecentSlots (snd (EstimatedCurrentSlot \<lparr>RecentSlots = [1, 2, 3, 4, 5, 6, 7, 8, 9, 10, 11, 12]\<rparr>)) =
     [12, 11, 10, 9, 8, 7, 6, 5, 4, 3, 2, 1] \<and>
   RecentSlots (RecordSlot (snd (EstimatedCurrentSlot \<lparr>RecentSlots = [1, 2, 3, 4, 5, 6, 7, 8, 9, 10, 11, 12]\<rparr>)) 13) =
     [11, 10, 9, 8, 7, 6, 5, 4, 3, 2, 1, 13] \<and>
   RecentSlots (RecordSlot \<lparr>RecentSlots = [1, 2, 3, 4, 5, 6, 7, 8, 9, 10, 11, 12]\<rparr> 13) =
     [2, 3, 4, 5, 6, 7, 8, 9, 10, 11, 12, 13]"
proof -
  let ?r = "\<lparr>RecentSlots = [1, 2, 3, 4, 5, 6, 7, 8, 9, 10, 11, 12 :: nat]\<rparr>"
  have l: "length (RecentSlots ?r) = 12" by simp
  have f: "float64_of_uint64 13 = 13" by (simp add: float64_exact)
  have s: "rev (sort (RecentSlots ?r)) = [12, 11, 10, 9, 8, 7, 6, 5, 4, 3, 2, 1]" by simp
  note t = estimate_sorts_window [of ?r 13]
  have "RecentSlots (snd (EstimatedCurrentSlot ?r)) = rev (sort (RecentSlots ?r))"
    using t [THEN conjunct1] .
  moreover have "RecentSlots (RecordSlot (snd (EstimatedCurrentSlot ?r)) 13) =
      tl (rev (sort (RecentSlots ?r))) @ [float64_of_uint64 13]"
    using t [THEN conjunct2, THEN mp, OF l, THEN conjunct2] .
  moreover have "RecentSlots (RecordSlot ?r 13) = [2, 3, 4, 5, 6, 7, 8, 9, 10, 11, 12, 13]"
    by (simp add: RecordSlot_window f)
  ultimately show ?thesis by (simp only: s f) simp
qed

subsection \<open>Claim C2: what Load stores\<close>

text \<open>
  The parts of the claim the code keeps: \<^verbatim>\<open>Load\<close> returns the error of the first
  of its three queries that fails, it succeeds only when all three answer, and on
  success the leader sequence is the collaborator's answer to a request for
  \<open>min (2 * MAX_FANOUT_SLOTS) slotsInEpoch\<close> leaders from \<^verbatim>\<open>startSlot\<close>
  (lemma \<open>leader_window_length_min\<close>).
\<close>

lemma Load_epoch_error:
  "GetEpochInfo connection = Inl err \<Longrightarrow>
   fst (LeaderTPUCache_Load c connection startSlot) = Some (Error err)"
  by (simp add: LeaderTPUCache_Load_def)

lemma Load_leaders_error:
  "GetEpochInfo connection = Inr epochInfo \<Longrightarrow>
   GetSlotLeaders connection startSlot (leader_window_length (EpochInfo_SlotsInEpoch epochInfo)) = Inl err \<Longrightarrow>
   fst (LeaderTPUCache_Load c connection startSlot) = Some (Error err)"
  by (simp add: LeaderTPUCache_Load_def FetchSlotLeaders_def)

lemma Load_nodes_error:
  "GetEpochInfo connection = Inr epochInfo \<Longrightarrow>
   GetSlotLeaders connection startSlot (leader_window_length (EpochInfo_SlotsInEpoch epochInfo)) = Inr slotLeaders \<Longrightarrow>
   GetClusterNodes connection = Inl err \<Longrightarrow>
   fst (LeaderTPUCache_Load c connection startSlot) = Some (Error err)"
  by (simp add: LeaderTPUCache_Load_def FetchSlotLeaders_def FetchClusterTPUSockets_def)

lemma Load_success:
  "GetEpochInfo connection = Inr epochInfo \<Longrightarrow>
   GetSlotLeaders connection startSlot (leader_window_length (EpochInfo_SlotsInEpoch epochInfo)) = Inr slotLeaders \<Longrightarrow>
   GetClusterNodes connection = Inr clusterNodes \<Longrightarrow>
   LeaderTPUCache_Load c connection startSlot =
     (None, c\<lparr>Connection := Some connection, SlotsInEpoch := EpochInfo_SlotsInEpoch epochInfo,
               Leaders := slotLeaders, LeaderTPUMap := foldl add_contact Map.empty clusterNodes\<rparr>)"
  by (simp add: LeaderTPUCache_Load_def FetchSlotLeaders_def FetchClusterTPUSockets_def)

lemma Load_success_only:
  assumes "fst (LeaderTPUCache_Load c connection startSlot) = None"
  shows "\<exists>epochInfo slotLeaders clusterNodes.
           GetEpochInfo connection = Inr epochInfo \<and>
           GetSlotLeaders connection startSlot (leader_window_length (EpochInfo_SlotsInEpoch epochInfo)) = Inr slotLeaders \<and>
           GetClusterNodes connection = Inr clusterNodes"
  using assms
  by (auto simp: LeaderTPUCache_Load_def FetchSlotLeaders_def FetchClusterTPUSockets_def Let_def
      split: sum.splits)

text \<open>
  \<^verbatim>\<open>Load\<close> makes no assignment to \<^verbatim>\<open>FirstSlot\<close>; the re-anchoring of
  \<^verbatim>\<open>Run\<close> assigns it together with \<^verbatim>\<open>Leaders\<close>.
\<close>

lemma Load_keeps_FirstSlot:
  "FirstSlot (snd (LeaderTPUCache_Load c connection startSlot)) = FirstSlot c"
  by (simp add: LeaderTPUCache_Load_def FetchSlotLeaders_def FetchClusterTPUSockets_def Let_def
      split: sum.splits)

lemma Run_reanchor_LastSlot:
  "LastSlot (Run_reanchor c currentSlot slotLeaders) = currentSlot + of_nat (length slotLeaders) - 1"
  by (simp add: LastSlot_def Run_reanchor_def)

lemma example_window: "leader_window_length 432000 = 200"
  by (simp add: leader_window_length_min MAX_FANOUT_SLOTS_def)

lemma example_Load:
  "LeaderTPUCache_Load LeaderTPUCache_zero example_client 1000 =
     (None, LeaderTPUCache_zero\<lparr>Connection := Some example_client, SlotsInEpoch := 432000,
               Leaders := replicate 200 ''A'', LeaderTPUMap := [''A'' \<mapsto> ''addr1'']\<rparr>)"
proof -
  have "LeaderTPUCache_Load LeaderTPUCache_zero example_client 1000 =
     (None, LeaderTPUCache_zero\<lparr>Connection := Some example_client,
               SlotsInEpoch := EpochInfo_SlotsInEpoch \<lparr>EpochInfo_SlotsInEpoch = 432000\<rparr>,
               Leaders := replicate (unat (200 :: uint64)) ''A'',
               LeaderTPUMap := foldl add_contact Map.empty
                  [\<lparr>Pubkey = ''A'', TPU = Some ''addr1''\<rparr>, \<lparr>Pubkey = ''B'', TPU = None\<rparr>]\<rparr>)"
    by (rule Load_success) (simp_all add: example_client_def example_window)
  then show ?thesis by (simp add: add_contact_def)
qed

lemma Load_errors_concrete:
  "fst (LeaderTPUCache_Load LeaderTPUCache_zero failing_epoch_client 1000) = Some (Error ''epoch info unavailable'') \<and>
   fst (LeaderTPUCache_Load LeaderTPUCache_zero failing_leaders_client 1000) = Some (Error ''leaders unavailable'') \<and>
   fst (LeaderTPUCache_Load LeaderTPUCache_zero failing_nodes_client 1000) = Some (Error ''nodes unavailable'')"
  by (simp add: LeaderTPUCache_Load_def FetchSlotLeaders_def FetchClusterTPUSockets_def
      failing_epoch_client_def failing_leaders_client_def failing_nodes_client_def example_client_def)

text \<open>
  Claim C2. The claim says that after a successful \<^verbatim>\<open>Load(connection, anchorSlot)\<close>
  the window is anchored at \<^verbatim>\<open>anchorSlot\<close>, so that \<^verbatim>\<open>LastSlot()\<close> is
  \<open>anchorSlot + length - 1\<close>. The code leaves \<^verbatim>\<open>FirstSlot\<close> as it was: from the
  zero-valued cache that \<^verbatim>\<open>LeaderTPUService.Load\<close> creates, a successful load at
  slot 1000 that stores 200 leaders leaves \<^verbatim>\<open>FirstSlot = 0\<close> and
  \<^verbatim>\<open>LastSlot() = 199\<close>, not 1199.
\<close>

theorem Load_never_anchors:
  "FirstSlot (snd (LeaderTPUCache_Load c connection startSlot)) = FirstSlot c \<and>
   fst (LeaderTPUCache_Load LeaderTPUCache_zero example_client 1000) = None \<and>
   length (Leaders (snd (LeaderTPUCache_Load LeaderTPUCache_zero example_client 1000))) = 200 \<and>
   FirstSlot (snd (LeaderTPUCache_Load LeaderTPUCache_zero example_client 1000)) = 0 \<and>
   LastSlot (snd (LeaderTPUCache_Load LeaderTPUCache_zero example_client 1000)) = 199 \<and>
   LastSlot (snd (LeaderTPUCache_Load LeaderTPUCache_zero example_client 1000)) \<noteq> 1000 + 200 - 1"
  unfolding example_Load
  by (simp add: Load_keeps_FirstSlot LastSlot_def LeaderTPUCache_zero_def)

subsection \<open>Claim C5: the effective fan-out\<close>

text \<open>
  Claim C5. The fan-out \<^verbatim>\<open>TPUClient.Load\<close> stores is the configured value
  clamped to 1 .. \<^verbatim>\<open>MAX_FANOUT_SLOTS\<close> (lemmas \<open>FanoutSlots_clamp\<close> and
  \<open>FanoutSlots_range\<close>). The claim adds that an unset (zero) configuration
  gets \<^verbatim>\<open>DEFAULT_FANOUT_SLOTS = 12\<close>; the code declares that variable and never
  reads it, and a zero configuration gets 1.
\<close>

theorem default_fanout_not_applied:
  "TPUClient_Load_FanoutSlots 0 = 1 \<and> DEFAULT_FANOUT_SLOTS = 12 \<and>
   TPUClient_Load_FanoutSlots 0 \<noteq> DEFAULT_FANOUT_SLOTS \<and>
   TPUClient_Load_FanoutSlots c = max 1 (min c MAX_FANOUT_SLOTS)"
  by (simp add: FanoutSlots_clamp DEFAULT_FANOUT_SLOTS_def MAX_FANOUT_SLOTS_def)

subsection \<open>The leader loop\<close>

lemma scan_steps_next:
  assumes "checkedSlots + 1 \<noteq> fanoutSlots"
  shows "scan_steps fanoutSlots checkedSlots = Suc (scan_steps fanoutSlots (checkedSlots + 1))"
proof (cases "fanoutSlots = checkedSlots")
  case True
  have "unat (checkedSlots - (checkedSlots + 1)) = unat (- 1 :: uint64)" by simp
  also have "\<dots> = 2 ^ 64 - 1" by (simp add: unsigned_minus_1_eq_mask mask_eq_exp_minus_1)
  finally show ?thesis using True assms by (simp add: scan_steps_def)
next
  case False
  define d where "d = fanoutSlots - checkedSlots"
  have d0: "d \<noteq> 0" using False by (simp add: d_def)
  have d1: "fanoutSlots - (checkedSlots + 1) = d - 1" by (simp add: d_def)
  have "unat (d - 1) = unat d - 1" using d0 by (simp add: unat_minus_one)
  moreover have "0 < unat d" using d0 by (simp add: unat_gt_0)
  ultimately have "unat d = Suc (unat (d - 1))" by simp
  moreover have "fanoutSlots \<noteq> checkedSlots + 1" using assms by auto
  ultimately show ?thesis using False by (simp add: scan_steps_def d1 flip: d_def)
qed

lemma scan_steps_last: "scan_steps (checkedSlots + 1) checkedSlots = 1"
  by (simp add: scan_steps_def)

lemma leader_loop_scan:
  "leader_loop m fanoutSlots leaders already sockets checkedSlots =
     leader_scan m (take (scan_steps fanoutSlots checkedSlots) leaders) already sockets"
proof (induction leaders arbitrary: already sockets checkedSlots)
  case Nil
  then show ?case by simp
next
  case (Cons leader rest)
  show ?case
  proof (cases "checkedSlots + 1 = fanoutSlots")
    case True
    then have "scan_steps fanoutSlots checkedSlots = 1"
      using scan_steps_last [of checkedSlots] by simp
    with True show ?thesis by (simp add: Let_def)
  next
    case False
    then have "scan_steps fanoutSlots checkedSlots = Suc (scan_steps fanoutSlots (checkedSlots + 1))"
      by (rule scan_steps_next)
    with False show ?thesis by (simp add: Let_def Cons.IH)
  qed
qed

lemma set_first_seen: "set (first_seen xs) = set xs"
  by (induction xs rule: first_seen.induct) auto

lemma distinct_first_seen: "distinct (first_seen xs)"
  by (induction xs rule: first_seen.induct) (simp_all add: set_first_seen)

lemma length_first_seen: "length (first_seen xs) \<le> length xs"
proof (induction xs rule: first_seen.induct)
  case 1
  then show ?case by simp
next
  case (2 x xs)
  have "length (first_seen (filter (\<lambda>y. y \<noteq> x) xs)) \<le> length (filter (\<lambda>y. y \<noteq> x) xs)" by (rule 2)
  also have "\<dots> \<le> length xs" by simp
  finally show ?case by simp
qed

lemma leader_scan_first_seen:
  "leader_scan m leaders already sockets =
     sockets @ map (map_index m)
       (first_seen (filter (\<lambda>l. map_index m l \<noteq> [] \<and> l \<notin> set already) leaders))"
proof (induction leaders arbitrary: already sockets)
  case Nil
  then show ?case by simp
next
  case (Cons leader rest)
  show ?case
  proof (cases "map_index m leader \<noteq> [] \<and> leader \<notin> set already")
    case True
    have "filter (\<lambda>y. y \<noteq> leader) (filter (\<lambda>l. map_index m l \<noteq> [] \<and> l \<notin> set already) rest) =
          filter (\<lambda>l. map_index m l \<noteq> [] \<and> l \<notin> set (already @ [leader])) rest"
      by (auto intro: filter_cong)
    with True show ?thesis by (simp add: Let_def CheckIfDuplicate_def Cons.IH)
  next
    case False
    then show ?thesis by (auto simp: Let_def CheckIfDuplicate_def Cons.IH)
  qed
qed

lemma GetLeaderSockets_scan:
  "GetLeaderSockets c fanoutSlots =
     sockets_spec (LeaderTPUMap c) (Leaders c) (scan_steps fanoutSlots 0)"
  by (simp add: GetLeaderSockets_def leader_loop_scan leader_scan_first_seen sockets_spec_def)

lemma scan_steps_positive: "fanoutSlots \<noteq> 0 \<Longrightarrow> scan_steps fanoutSlots 0 = unat fanoutSlots"
  by (simp add: scan_steps_def)

lemma scan_steps_zero: "scan_steps 0 0 = 2 ^ 64"
  by (simp add: scan_steps_def)

lemma length_sockets_spec: "length (sockets_spec m leaders k) \<le> min k (length leaders)"
proof -
  have "length (sockets_spec m leaders k) \<le> length (filter (\<lambda>l. map_index m l \<noteq> []) (take k leaders))"
    by (simp add: sockets_spec_def length_first_seen)
  also have "\<dots> \<le> length (take k leaders)" by (rule length_filter_le)
  finally show ?thesis by simp
qed

lemma leader_loop_converted_map:
  "leader_loop_converted ResolveUDPAddr m fanoutSlots leaders already (map ResolveUDPAddr sockets) checkedSlots =
     map ResolveUDPAddr (leader_loop m fanoutSlots leaders already sockets checkedSlots)"
proof (induction leaders arbitrary: already sockets checkedSlots)
  case Nil
  then show ?case by simp
next
  case (Cons leader rest)
  show ?case
  proof (cases "map_index m leader \<noteq> [] \<and> \<not> CheckIfDuplicate already leader")
    case True
    with Cons.IH [of "already @ [leader]" "sockets @ [map_index m leader]" "checkedSlots + 1"]
    show ?thesis by (simp add: Let_def)
  next
    case False
    with Cons.IH [of already sockets "checkedSlots + 1"]
    show ?thesis by (auto simp: Let_def)
  qed
qed

lemma GetLeaderSocketsConverted_map:
  "GetLeaderSocketsConverted ResolveUDPAddr c fanoutSlots =
     map ResolveUDPAddr (GetLeaderSockets c fanoutSlots)"
  using leader_loop_converted_map [of ResolveUDPAddr _ _ _ _ "[]"]
  by (simp add: GetLeaderSocketsConverted_def GetLeaderSockets_def)

subsection \<open>Claims C3 and C10: the addresses of the fan-out\<close>

lemma aab_sockets_spec:
  "sockets_spec (LeaderTPUMap aab_cache) (Leaders aab_cache) 3 = [''addr1'', ''addr2'']"
  by (simp add: sockets_spec_def aab_cache_def map_index_def)

lemma aab_sockets_zero: "GetLeaderSockets aab_cache 0 = [''addr1'', ''addr2'']"
  by (simp add: GetLeaderSockets_def aab_cache_def map_index_def CheckIfDuplicate_def Let_def)

text \<open>
  Claim C3, amended to a fan-out of at least 1. For \<^verbatim>\<open>fanoutSlots\<close> other than 0,
  \<^verbatim>\<open>GetLeaderSockets\<close> returns the addresses of the leaders found among the first
  \<^verbatim>\<open>fanoutSlots\<close> positions of the sequence: the leaders without a known address
  are skipped, each identity is taken once, in first-seen order (the list of
  identities is distinct and loses none), and the list is no longer than
  \<^verbatim>\<open>fanoutSlots\<close>: the stop is after that many positions, not that many
  addresses. Leaders A, A, B with fan-out 3 give \<open>addr1\<close>, \<open>addr2\<close>.
\<close>

theorem GetLeaderSockets_fanout:
  "(fanoutSlots \<noteq> 0 \<longrightarrow>
      GetLeaderSockets c fanoutSlots =
        map (map_index (LeaderTPUMap c))
          (first_seen (filter (\<lambda>l. map_index (LeaderTPUMap c) l \<noteq> []) (take (unat fanoutSlots) (Leaders c)))) \<and>
      length (GetLeaderSockets c fanoutSlots) \<le> unat fanoutSlots) \<and>
   distinct (first_seen ids) \<and> set (first_seen ids) = set ids \<and>
   GetLeaderSockets aab_cache 3 = [''addr1'', ''addr2'']"
proof (intro conjI impI)
  assume k: "fanoutSlots \<noteq> 0"
  then have eq: "GetLeaderSockets c fanoutSlots = sockets_spec (LeaderTPUMap c) (Leaders c) (unat fanoutSlots)"
    by (simp add: GetLeaderSockets_scan scan_steps_positive)
  then show "GetLeaderSockets c fanoutSlots =
        map (map_index (LeaderTPUMap c))
          (first_seen (filter (\<lambda>l. map_index (LeaderTPUMap c) l \<noteq> []) (take (unat fanoutSlots) (Leaders c))))"
    by (simp add: sockets_spec_def)
  have "length (sockets_spec (LeaderTPUMap c) (Leaders c) (unat fanoutSlots)) \<le>
        min (unat fanoutSlots) (length (Leaders c))"
    by (rule length_sockets_spec)
  then show "length (GetLeaderSockets c fanoutSlots) \<le> unat fanoutSlots"
    by (simp add: eq)
next
  show "distinct (first_seen ids)" by (rule distinct_first_seen)
  show "set (first_seen ids) = set ids" by (rule set_first_seen)
  show "GetLeaderSockets aab_cache 3 = [''addr1'', ''addr2'']"
    by (simp add: GetLeaderSockets_scan scan_steps_positive aab_sockets_spec)
qed

theorem GetLeaderSockets_fanout_witness:
  "GetLeaderSockets aab_cache 2 = [''addr1''] \<and> length (GetLeaderSockets aab_cache 2) \<le> 2"
proof -
  have k: "(2 :: uint64) \<noteq> 0" by simp
  note t = GetLeaderSockets_fanout [of 2 aab_cache, THEN conjunct1, THEN mp, OF k]
  have "GetLeaderSockets aab_cache 2 =
        map (map_index (LeaderTPUMap aab_cache))
          (first_seen (filter (\<lambda>l. map_index (LeaderTPUMap aab_cache) l \<noteq> [])
             (take (unat (2 :: uint64)) (Leaders aab_cache))))"
    using t [THEN conjunct1] .
  moreover have "length (GetLeaderSockets aab_cache 2) \<le> unat (2 :: uint64)"
    using t [THEN conjunct2] .
  ultimately show ?thesis by (simp add: aab_cache_def map_index_def)
qed

text \<open>
  Claim C3 as stated, for every \<^verbatim>\<open>fanoutSlots\<close>, fails at 0: no position should
  be examined and no address returned, and the code returns both addresses of
  the example.
\<close>

theorem GetLeaderSockets_fanout_zero_counterexample:
  "GetLeaderSockets aab_cache 0 = [''addr1'', ''addr2''] \<and>
   sockets_spec (LeaderTPUMap aab_cache) (Leaders aab_cache) (unat (0 :: uint64)) = [] \<and>
   \<not> length (GetLeaderSockets aab_cache 0) \<le> unat (0 :: uint64)"
  by (simp add: aab_sockets_zero sockets_spec_def)

text \<open>
  Claim C10. With \<^verbatim>\<open>fanoutSlots = 0\<close> the counter, tested for equality after its
  increment, never equals 0 within a sequence shorter than \<open>2 ^ 64\<close>: both
  \<^verbatim>\<open>GetLeaderSockets\<close> and \<^verbatim>\<open>GetLeaderSocketsConverted\<close> go through the whole
  sequence and return every resolvable leader once. For \<^verbatim>\<open>fanoutSlots\<close> of at
  least 1 only the first \<^verbatim>\<open>fanoutSlots\<close> positions are read. On the leaders
  A, A, B a fan-out of 0 returns what a fan-out of 3 returns.
\<close>

theorem GetLeaderSockets_zero_scans_all:
  "(length (Leaders c) < 2 ^ 64 \<longrightarrow>
      GetLeaderSockets c 0 =
        map (map_index (LeaderTPUMap c))
          (first_seen (filter (\<lambda>l. map_index (LeaderTPUMap c) l \<noteq> []) (Leaders c))) \<and>
      GetLeaderSocketsConverted ResolveUDPAddr c 0 =
        map ResolveUDPAddr (map (map_index (LeaderTPUMap c))
          (first_seen (filter (\<lambda>l. map_index (LeaderTPUMap c) l \<noteq> []) (Leaders c))))) \<and>
   (fanoutSlots \<noteq> 0 \<longrightarrow>
      GetLeaderSockets c fanoutSlots =
        map (map_index (LeaderTPUMap c))
          (first_seen (filter (\<lambda>l. map_index (LeaderTPUMap c) l \<noteq> []) (take (unat fanoutSlots) (Leaders c)))) \<and>
      GetLeaderSocketsConverted ResolveUDPAddr c fanoutSlots =
        map ResolveUDPAddr (map (map_index (LeaderTPUMap c))
          (first_seen (filter (\<lambda>l. map_index (LeaderTPUMap c) l \<noteq> []) (take (unat fanoutSlots) (Leaders c)))))) \<and>
   GetLeaderSockets aab_cache 0 = GetLeaderSockets aab_cache 3"
proof (intro conjI impI)
  assume "length (Leaders c) < 2 ^ 64"
  then have "take (2 ^ 64) (Leaders c) = Leaders c" by simp
  then show z: "GetLeaderSockets c 0 =
        map (map_index (LeaderTPUMap c))
          (first_seen (filter (\<lambda>l. map_index (LeaderTPUMap c) l \<noteq> []) (Leaders c)))"
    by (simp add: GetLeaderSockets_scan scan_steps_zero sockets_spec_def)
  show "GetLeaderSocketsConverted ResolveUDPAddr c 0 =
        map ResolveUDPAddr (map (map_index (LeaderTPUMap c))
          (first_seen (filter (\<lambda>l. map_index (LeaderTPUMap c) l \<noteq> []) (Leaders c))))"
    by (simp only: GetLeaderSocketsConverted_map z)
next
  assume "fanoutSlots \<noteq> 0"
  then show k: "GetLeaderSockets c fanoutSlots =
        map (map_index (LeaderTPUMap c))
          (first_seen (filter (\<lambda>l. map_index (LeaderTPUMap c) l \<noteq> []) (take (unat fanoutSlots) (Leaders c))))"
    by (simp add: GetLeaderSockets_scan scan_steps_positive sockets_spec_def)
  show "GetLeaderSocketsConverted ResolveUDPAddr c fanoutSlots =
        map ResolveUDPAddr (map (map_index (LeaderTPUMap c))
          (first_seen (filter (\<lambda>l. map_index (LeaderTPUMap c) l \<noteq> []) (take (unat fanoutSlots) (Leaders c)))))"
    by (simp only: GetLeaderSocketsConverted_map k)
next
  show "GetLeaderSockets aab_cache 0 = GetLeaderSockets aab_cache 3"
    by (simp only: aab_sockets_zero) (simp add: GetLeaderSockets_scan scan_steps_positive aab_sockets_spec)
qed

theorem GetLeaderSockets_zero_scans_all_witness:
  "GetLeaderSockets aab_cache 0 = [''addr1'', ''addr2''] \<and>
   GetLeaderSocketsConverted length aab_cache 0 = [5, 5] \<and>
   GetLeaderSockets aab_cache 1 = [''addr1'']"
proof -
  have l: "length (Leaders aab_cache) < 2 ^ 64" by (simp add: aab_cache_def)
  have k: "(1 :: uint64) \<noteq> 0" by simp
  note t = GetLeaderSockets_zero_scans_all [of aab_cache length 1]
  note z = t [THEN conjunct1, THEN mp, OF l]
  note p = t [THEN conjunct2, THEN conjunct1, THEN mp, OF k]
  have known: "filter (\<lambda>l. map_index (LeaderTPUMap aab_cache) l \<noteq> []) (Leaders aab_cache) = [''A'', ''A'', ''B'']"
    by (simp add: aab_cache_def map_index_def)
  have known1: "filter (\<lambda>l. map_index (LeaderTPUMap aab_cache) l \<noteq> []) (take (unat (1 :: uint64)) (Leaders aab_cache)) = [''A'']"
    by (simp add: aab_cache_def map_index_def)
  have "GetLeaderSockets aab_cache 0 = [''addr1'', ''addr2'']"
    unfolding z [THEN conjunct1] known by (simp add: aab_cache_def map_index_def)
  moreover have "GetLeaderSocketsConverted length aab_cache 0 = [5, 5]"
    unfolding z [THEN conjunct2] known by (simp add: aab_cache_def map_index_def)
  moreover have "GetLeaderSockets aab_cache 1 = [''addr1'']"
    unfolding p [THEN conjunct1] known1 by (simp add: aab_cache_def map_index_def)
  ultimately show ?thesis by simp
qed

subsection \<open>The sender\<close>

lemma error_text_after_append:
  "error_text_after t (es @ es') = error_text_after (error_text_after t es) es'"
  by (induction t es rule: error_text_after.induct) simp_all

lemma send_inv_start: "send_inv (send_start w)"
  by (simp add: send_inv_def send_start_def last_error_text_def)

lemma send_inv_DialFailed:
  "send_inv st \<Longrightarrow> send_inv (st\<lparr>lastError := err, events := events st @ [DialFailed a err], world := w'\<rparr>)"
  by (simp add: send_inv_def last_error_text_def error_text_after_append)

lemma send_inv_Dialed:
  "send_inv st \<Longrightarrow> send_inv (st\<lparr>events := events st @ [Dialed a], world := w'\<rparr>)"
  by (simp add: send_inv_def last_error_text_def error_text_after_append)

lemma send_inv_WriteFailed:
  "send_inv st \<Longrightarrow> send_inv (st\<lparr>lastError := err, events := events st @ [WriteFailed a err], world := w'\<rparr>)"
  by (simp add: send_inv_def last_error_text_def error_text_after_append)

lemma send_inv_Written:
  "send_inv st \<Longrightarrow> send_inv (st\<lparr>successes := successes st + 1, events := events st @ [Written a], world := w'\<rparr>)"
  by (simp add: send_inv_def last_error_text_def error_text_after_append)

lemma send_inv_world: "send_inv st \<Longrightarrow> send_inv (st\<lparr>world := w'\<rparr>)"
  by (simp add: send_inv_def)

lemma dial_loop_retry:
  "net_Dial net (world st) leader = (Inl err, w') \<Longrightarrow> connectionTries < 3 \<Longrightarrow>
   dial_loop net leader connectionTries st =
     dial_loop net leader (connectionTries + 1)
       (st\<lparr>lastError := err, events := events st @ [DialFailed leader err], world := w'\<rparr>)"
  by (subst dial_loop.simps) (simp add: Let_def)

lemma dial_loop_give_up:
  "net_Dial net (world st) leader = (Inl err, w') \<Longrightarrow> \<not> connectionTries < 3 \<Longrightarrow>
   dial_loop net leader connectionTries st =
     (None, st\<lparr>lastError := err, events := events st @ [DialFailed leader err], world := w'\<rparr>)"
  by (subst dial_loop.simps) (simp add: Let_def)

lemma dial_loop_connected:
  "net_Dial net (world st) leader = (Inr conn, w') \<Longrightarrow>
   dial_loop net leader connectionTries st =
     (Some conn, st\<lparr>events := events st @ [Dialed leader], world := w'\<rparr>)"
  by (subst dial_loop.simps) simp

lemma dial_loop_events:
  "connectionTries \<le> 3 \<Longrightarrow>
   (case dial_loop net leader connectionTries st of
      (None, st') \<Rightarrow>
        \<exists>errs. length errs = 4 - connectionTries \<and>
               events st' = events st @ map (DialFailed leader) errs \<and>
               lastError st' = last errs \<and> successes st' = successes st
    | (Some conn, st') \<Rightarrow>
        \<exists>errs. length errs \<le> 3 - connectionTries \<and>
               events st' = events st @ map (DialFailed leader) errs @ [Dialed leader] \<and>
               successes st' = successes st)"
proof (induction "3 - connectionTries" arbitrary: connectionTries st)
  case 0
  then have last: "\<not> connectionTries < 3" and eq: "4 - connectionTries = 1" by simp_all
  obtain r w' where d: "net_Dial net (world st) leader = (r, w')" by force
  show ?case
  proof (cases r)
    case (Inl err)
    with d last have "dial_loop net leader connectionTries st =
        (None, st\<lparr>lastError := err, events := events st @ [DialFailed leader err], world := w'\<rparr>)"
      by (simp add: dial_loop_give_up)
    then show ?thesis using eq by (auto intro: exI [of _ "[err]"])
  next
    case (Inr conn)
    with d have "dial_loop net leader connectionTries st =
        (Some conn, st\<lparr>events := events st @ [Dialed leader], world := w'\<rparr>)"
      by (simp add: dial_loop_connected)
    then show ?thesis by (auto intro: exI [of _ "[]"])
  qed
next
  case (Suc n)
  then have lt: "connectionTries < 3" by simp
  obtain r w' where d: "net_Dial net (world st) leader = (r, w')" by force
  show ?case
  proof (cases r)
    case (Inl err)
    let ?st1 = "st\<lparr>lastError := err, events := events st @ [DialFailed leader err], world := w'\<rparr>"
    from Inl d lt have step: "dial_loop net leader connectionTries st =
        dial_loop net leader (connectionTries + 1) ?st1"
      by (simp add: dial_loop_retry)
    have n: "n = 3 - (connectionTries + 1)" and le: "connectionTries + 1 \<le> 3"
      using Suc.hyps(2) by simp_all
    note IH = Suc.hyps(1) [OF n le, of ?st1]
    obtain res st' where res: "dial_loop net leader (connectionTries + 1) ?st1 = (res, st')"
      by force
    show ?thesis
    proof (cases res)
      case None
      with IH res obtain errs where errs: "length errs = 4 - (connectionTries + 1)"
          "events st' = events ?st1 @ map (DialFailed leader) errs"
          "lastError st' = last errs" "successes st' = successes ?st1"
        by auto
      from errs(1) lt have ne: "errs \<noteq> []" by auto
      have "length (err # errs) = 4 - connectionTries" using errs(1) lt by simp
      moreover have "events st' = events st @ map (DialFailed leader) (err # errs)"
        using errs(2) by simp
      moreover have "lastError st' = last (err # errs)" using errs(3) ne by simp
      moreover have "successes st' = successes st" using errs(4) by simp
      ultimately show ?thesis unfolding step res None by (simp only: prod.case option.case) blast
    next
      case (Some conn)
      with IH res obtain errs where errs: "length errs \<le> 3 - (connectionTries + 1)"
          "events st' = events ?st1 @ map (DialFailed leader) errs @ [Dialed leader]"
          "successes st' = successes ?st1"
        by auto
      have "length (err # errs) \<le> 3 - connectionTries" using errs(1) lt by simp
      moreover have "events st' = events st @ map (DialFailed leader) (err # errs) @ [Dialed leader]"
        using errs(2) by simp
      moreover have "successes st' = successes st" using errs(3) by simp
      ultimately show ?thesis unfolding step res Some by (simp only: prod.case option.case) blast
    qed
  next
    case (Inr conn)
    with d have "dial_loop net leader connectionTries st =
        (Some conn, st\<lparr>events := events st @ [Dialed leader], world := w'\<rparr>)"
      by (simp add: dial_loop_connected)
    then show ?thesis by (auto intro: exI [of _ "[]"])
  qed
qed

lemma dial_loop_inv:
  "send_inv st \<Longrightarrow> send_inv (snd (dial_loop net leader connectionTries st))"
proof (induction "3 - connectionTries" arbitrary: connectionTries st)
  case 0
  then have last: "\<not> connectionTries < 3" by simp
  obtain r w' where d: "net_Dial net (world st) leader = (r, w')" by force
  show ?case
  proof (cases r)
    case (Inl err)
    with d last 0 show ?thesis by (simp add: dial_loop_give_up send_inv_DialFailed)
  next
    case (Inr conn)
    with d 0 show ?thesis by (simp add: dial_loop_connected send_inv_Dialed)
  qed
next
  case (Suc n)
  then have lt: "connectionTries < 3" by simp
  obtain r w' where d: "net_Dial net (world st) leader = (r, w')" by force
  show ?case
  proof (cases r)
    case (Inl err)
    let ?st1 = "st\<lparr>lastError := err, events := events st @ [DialFailed leader err], world := w'\<rparr>"
    have n: "n = 3 - (connectionTries + 1)" using Suc.hyps(2) by simp
    have "send_inv ?st1" using Suc.prems by (rule send_inv_DialFailed)
    then have "send_inv (snd (dial_loop net leader (connectionTries + 1) ?st1))"
      by (rule Suc.hyps(1) [OF n])
    with Inl d lt show ?thesis by (simp add: dial_loop_retry)
  next
    case (Inr conn)
    with d Suc.prems show ?thesis by (simp add: dial_loop_connected send_inv_Dialed)
  qed
qed

lemma write_loop_done:
  "\<not> i < amount \<Longrightarrow> write_loop net connection leader transaction amount i st = st"
  by (subst write_loop.simps) simp

lemma write_loop_failed:
  "i < amount \<Longrightarrow> conn_Write net (world st) connection transaction = (Some err, w') \<Longrightarrow>
   write_loop net connection leader transaction amount i st =
     write_loop net connection leader transaction amount (i + 1)
       (st\<lparr>lastError := err, events := events st @ [WriteFailed leader err], world := w'\<rparr>)"
  by (subst write_loop.simps) simp

lemma write_loop_written:
  "i < amount \<Longrightarrow> conn_Write net (world st) connection transaction = (None, w') \<Longrightarrow>
   write_loop net connection leader transaction amount i st =
     write_loop net connection leader transaction amount (i + 1)
       (st\<lparr>successes := successes st + 1, events := events st @ [Written leader], world := w'\<rparr>)"
  by (subst write_loop.simps) simp

lemma write_loop_inv:
  "send_inv st \<Longrightarrow> send_inv (write_loop net connection leader transaction amount i st)"
proof (induction "nat (amount - i)" arbitrary: i st)
  case 0
  then have "\<not> i < amount" by simp
  with 0 show ?case by (simp add: write_loop_done)
next
  case (Suc n)
  then have lt: "i < amount" and n: "n = nat (amount - (i + 1))" by simp_all
  obtain r w' where w: "conn_Write net (world st) connection transaction = (r, w')" by force
  show ?case
  proof (cases r)
    case None
    let ?st1 = "st\<lparr>successes := successes st + 1, events := events st @ [Written leader], world := w'\<rparr>"
    have "send_inv ?st1" using Suc.prems by (rule send_inv_Written)
    then have "send_inv (write_loop net connection leader transaction amount (i + 1) ?st1)"
      by (rule Suc.hyps(1) [OF n])
    with None w lt show ?thesis by (simp add: write_loop_written)
  next
    case (Some err)
    let ?st1 = "st\<lparr>lastError := err, events := events st @ [WriteFailed leader err], world := w'\<rparr>"
    have "send_inv ?st1" using Suc.prems by (rule send_inv_WriteFailed)
    then have "send_inv (write_loop net connection leader transaction amount (i + 1) ?st1)"
      by (rule Suc.hyps(1) [OF n])
    with Some w lt show ?thesis by (simp add: write_loop_failed)
  qed
qed

lemma send_loop_inv:
  "send_inv st \<Longrightarrow> send_inv (send_loop net transaction amount leaders st)"
proof (induction leaders arbitrary: st)
  case Nil
  then show ?case by simp
next
  case (Cons leader rest)
  obtain r st' where d: "dial_loop net leader 0 st = (r, st')" by force
  have inv': "send_inv st'" using dial_loop_inv [OF Cons.prems, of net leader 0] d by simp
  show ?case
  proof (cases r)
    case None
    with d inv' show ?thesis by (simp add: Cons.IH)
  next
    case (Some connection)
    have "send_inv (write_loop net connection leader transaction amount 0 st')"
      using inv' by (rule write_loop_inv)
    then have "send_inv ((write_loop net connection leader transaction amount 0 st')
        \<lparr>world := conn_Close net (world (write_loop net connection leader transaction amount 0 st')) connection\<rparr>)"
      by (rule send_inv_world)
    with Some d show ?thesis by (simp add: Let_def Cons.IH)
  qed
qed




lemma SendRawTransaction_inv:
  "send_inv (snd (SendRawTransaction net tpuClient transaction amount w))"
  by (simp add: SendRawTransaction_def Let_def send_loop_inv send_inv_start)

lemma aab_sockets_three: "GetLeaderSockets aab_cache 3 = [''addr1'', ''addr2'']"
  by (simp add: GetLeaderSockets_scan scan_steps_positive aab_sockets_spec)

lemma word_of_nat_zero_small:
  assumes "n < 2 ^ LENGTH('i::len)"
  shows "(of_nat n :: 'i word) = 0 \<longleftrightarrow> n = 0"
proof
  assume "(of_nat n :: 'i word) = 0"
  then have "unat (of_nat n :: 'i word) = 0" by simp
  with assms show "n = 0" by (simp add: unat_of_nat)
next
  assume "n = 0"
  then show "(of_nat n :: 'i word) = 0" by simp
qed

lemma Written_filter_empty:
  "filter is_Written es = [] \<longleftrightarrow> \<not> (\<exists>a. Written a \<in> set es)"
proof
  assume e: "filter is_Written es = []"
  show "\<not> (\<exists>a. Written a \<in> set es)"
  proof
    assume "\<exists>a. Written a \<in> set es"
    then obtain a where "Written a \<in> set (filter is_Written es)" by auto
    with e show False by simp
  qed
next
  assume n: "\<not> (\<exists>a. Written a \<in> set es)"
  have "\<not> is_Written e" if "e \<in> set es" for e
    by (cases e) (use that n in auto)
  then show "filter is_Written es = []" by (simp add: filter_empty_conv)
qed

lemma send_result_count:
  fixes st :: "('w, 'i::len) send_state"
  assumes "send_inv st"
  shows "send_result st =
           (if (of_nat (length (filter is_Written (events st))) :: 'i word) = 0
            then Some (last_error_text (events st)) else None)"
  using assms by (simp add: send_result_def send_inv_def)

lemma send_result_events:
  fixes st :: "('w, 'i::len) send_state"
  assumes "send_inv st" and "length (filter is_Written (events st)) < 2 ^ LENGTH('i)"
  shows "send_result st =
           (if \<exists>a. Written a \<in> set (events st) then None else Some (last_error_text (events st)))"
proof -
  have "(of_nat (length (filter is_Written (events st))) :: 'i word) = 0 \<longleftrightarrow>
        filter is_Written (events st) = []"
    using word_of_nat_zero_small [OF assms(2)] by simp
  then show ?thesis
    by (simp add: send_result_count [OF assms(1)] Written_filter_empty)
qed

lemma write_loop_events:
  "\<exists>results. length results = nat (amount - i) \<and>
     events (write_loop net connection leader transaction amount i st) =
       events st @ map (write_event leader) results"
proof (induction "nat (amount - i)" arbitrary: i st)
  case 0
  then have "\<not> i < amount" by simp
  with 0 show ?case by (simp add: write_loop_done)
next
  case (Suc n)
  then have lt: "i < amount" and n: "n = nat (amount - (i + 1))" by simp_all
  obtain r w' where w: "conn_Write net (world st) connection transaction = (r, w')" by force
  define st1 where "st1 = (case r of
      None \<Rightarrow> st\<lparr>successes := successes st + 1, events := events st @ [Written leader], world := w'\<rparr>
    | Some err \<Rightarrow> st\<lparr>lastError := err, events := events st @ [WriteFailed leader err], world := w'\<rparr>)"
  have step: "write_loop net connection leader transaction amount i st =
      write_loop net connection leader transaction amount (i + 1) st1"
    using lt w by (cases r) (simp_all add: st1_def write_loop_written write_loop_failed)
  have ev1: "events st1 = events st @ [write_event leader r]"
    by (cases r) (simp_all add: st1_def write_event_def)
  from Suc.hyps(1) [OF n, of st1] obtain results where
    res: "length results = nat (amount - (i + 1))"
      "events (write_loop net connection leader transaction amount (i + 1) st1) =
         events st1 @ map (write_event leader) results"
    by blast
  have "length (r # results) = nat (amount - i)" using res(1) lt by simp
  moreover have "events (write_loop net connection leader transaction amount i st) =
      events st @ map (write_event leader) (r # results)"
    by (simp add: step res(2) ev1)
  ultimately show ?case by blast
qed

lemma send_loop_events:
  "\<exists>evs. events (send_loop net transaction amount leaders st) = events st @ evs \<and>
         fanout_events (nat amount) leaders evs"
proof (induction leaders arbitrary: st)
  case Nil
  then show ?case by simp
next
  case (Cons leader rest)
  obtain r st' where d: "dial_loop net leader 0 st = (r, st')" by force
  have "(0 :: nat) \<le> 3" by simp
  note ev = dial_loop_events [where connectionTries = 0 and net = net and leader = leader and st = st, OF this]
  show ?case
  proof (cases r)
    case None
    with ev d obtain errs where errs: "length errs = 4"
        "events st' = events st @ map (DialFailed leader) errs"
      by auto
    from Cons.IH [of st'] obtain evs where evs:
        "events (send_loop net transaction amount rest st') = events st' @ evs"
        "fanout_events (nat amount) rest evs"
      by blast
    have seg: "address_events (nat amount) leader (map (DialFailed leader) errs)"
      using errs(1) by (auto simp: address_events_def)
    have "events (send_loop net transaction amount (leader # rest) st) =
        events st @ (map (DialFailed leader) errs @ evs)"
      using None d errs(2) evs(1) by simp
    moreover have "fanout_events (nat amount) (leader # rest) (map (DialFailed leader) errs @ evs)"
      using seg evs(2) by (simp only: fanout_events.simps) blast
    ultimately show ?thesis by blast
  next
    case (Some connection)
    with ev d obtain errs where errs: "length errs \<le> 3"
        "events st' = events st @ map (DialFailed leader) errs @ [Dialed leader]"
      by auto
    let ?st2 = "write_loop net connection leader transaction amount 0 st'"
    let ?st3 = "?st2\<lparr>world := conn_Close net (world ?st2) connection\<rparr>"
    from write_loop_events [of amount 0 net connection leader transaction st']
    obtain results where res: "length results = nat amount"
        "events ?st2 = events st' @ map (write_event leader) results"
      by auto
    from Cons.IH [of ?st3] obtain evs where evs:
        "events (send_loop net transaction amount rest ?st3) = events ?st3 @ evs"
        "fanout_events (nat amount) rest evs"
      by blast
    let ?seg = "map (DialFailed leader) errs @ Dialed leader # map (write_event leader) results"
    have seg: "address_events (nat amount) leader ?seg"
      using errs(1) res(1) by (auto simp: address_events_def)
    have "events (send_loop net transaction amount (leader # rest) st) = events st @ (?seg @ evs)"
      using Some d errs(2) res(2) evs(1) by (simp add: Let_def)
    moreover have "fanout_events (nat amount) (leader # rest) (?seg @ evs)"
      using seg evs(2) by (simp only: fanout_events.simps) blast
    ultimately show ?thesis by blast
  qed
qed

lemma SendRawTransaction_events:
  "fanout_events (nat (sint amount)) (GetLeaderSockets (LTPUCache tpuClient) (FanoutSlots tpuClient))
     (events (snd (SendRawTransaction net tpuClient transaction amount w)))"
proof -
  from send_loop_events [of net transaction "sint amount"
      "GetLeaderSockets (LTPUCache tpuClient) (FanoutSlots tpuClient)" "send_start w"]
  show ?thesis by (auto simp: SendRawTransaction_def Let_def send_start_def)
qed

lemma four_sockets:
  "GetLeaderSockets (LTPUCache four_client) (FanoutSlots four_client) =
     [''addr1'', ''addr2'', ''addr3'', ''addr4'']"
  by (simp add: GetLeaderSockets_scan scan_steps_positive sockets_spec_def four_client_def map_index_def)


lemma script_one_write:
  "SendRawTransaction script_net aab_client [1, 2] (2 :: 64 word)
       ([Some ''e1'', Some ''e2'', Some ''e3'', Some ''e4'', Some ''e5'', None], [Some ''w1'', None]) =
     (None,
      \<lparr>successes = 1, lastError = ''w1'',
        events = [DialFailed ''addr1'' ''e1'', DialFailed ''addr1'' ''e2'', DialFailed ''addr1'' ''e3'',
                  DialFailed ''addr1'' ''e4'', DialFailed ''addr2'' ''e5'', Dialed ''addr2'',
                  WriteFailed ''addr2'' ''w1'', Written ''addr2''],
        world = ([], [])\<rparr>)"
  by (simp add: SendRawTransaction_def aab_client_def aab_sockets_three send_start_def send_result_def
      script_net_def script_Dial_def script_Write_def dial_loop.simps write_loop.simps Let_def)

lemma script_all_fail:
  "SendRawTransaction script_net aab_client [1, 2] (1 :: 64 word)
       ([Some ''e1'', Some ''e2'', Some ''e3'', Some ''e4''], [Some ''w1'']) =
     (Some ''w1'',
      \<lparr>successes = 0, lastError = ''w1'',
        events = [DialFailed ''addr1'' ''e1'', DialFailed ''addr1'' ''e2'', DialFailed ''addr1'' ''e3'',
                  DialFailed ''addr1'' ''e4'', Dialed ''addr2'', WriteFailed ''addr2'' ''w1''],
        world = ([], [])\<rparr>)"
  by (simp add: SendRawTransaction_def aab_client_def aab_sockets_three send_start_def send_result_def
      script_net_def script_Dial_def script_Write_def dial_loop.simps write_loop.simps Let_def)

lemma script_second_address:
  "SendRawTransaction script_net aab_client [1, 2] (1 :: 64 word) ([], [Some ''w1'']) =
     (None,
      \<lparr>successes = 1, lastError = ''w1'',
        events = [Dialed ''addr1'', WriteFailed ''addr1'' ''w1'', Dialed ''addr2'', Written ''addr2''],
        world = ([], [])\<rparr>)"
  by (simp add: SendRawTransaction_def aab_client_def aab_sockets_three send_start_def send_result_def
      script_net_def script_Dial_def script_Write_def dial_loop.simps write_loop.simps Let_def)

text \<open>
  On the scripted network with nothing scripted every dial connects and every
  write succeeds: each address adds \<^verbatim>\<open>amount\<close> to \<^verbatim>\<open>successes\<close>, in its word.
\<close>

lemma quiet_dial:
  assumes "world st = ([], [])"
  shows "dial_loop script_net leader 0 st =
           (Some (), st\<lparr>events := events st @ [Dialed leader], world := ([], [])\<rparr>)"
  by (rule dial_loop_connected) (simp add: script_net_def script_Dial_def assms)

lemma quiet_write_loop:
  "world st = ([], []) \<Longrightarrow>
   successes (write_loop script_net () leader transaction amount i st) =
     successes st + of_nat (nat (amount - i)) \<and>
   lastError (write_loop script_net () leader transaction amount i st) = lastError st \<and>
   events (write_loop script_net () leader transaction amount i st) =
     events st @ replicate (nat (amount - i)) (Written leader) \<and>
   world (write_loop script_net () leader transaction amount i st) = ([], [])"
proof (induction "nat (amount - i)" arbitrary: i st)
  case 0
  then have "\<not> i < amount" by simp
  with 0 show ?case by (simp add: write_loop_done)
next
  case (Suc n)
  then have lt: "i < amount" and n: "n = nat (amount - (i + 1))" by simp_all
  let ?st1 = "st\<lparr>successes := successes st + 1, events := events st @ [Written leader], world := ([], [])\<rparr>"
  have w: "conn_Write script_net (world st) () transaction = (None, ([], []))"
    using Suc.prems by (simp add: script_net_def script_Write_def)
  have step: "write_loop script_net () leader transaction amount i st =
      write_loop script_net () leader transaction amount (i + 1) ?st1"
    using lt w by (rule write_loop_written)
  have q: "world ?st1 = ([], [])" by simp
  have m: "nat (amount - i) = Suc n" using Suc.hyps(2) by simp
  note IH = Suc.hyps(1) [OF n q]
  show ?case
    unfolding step m using IH by (simp add: n replicate_append_same)
qed

lemma quiet_send_loop:
  "world st = ([], []) \<Longrightarrow>
   successes (send_loop script_net transaction amount leaders st) =
     successes st + of_nat (length leaders * nat amount) \<and>
   lastError (send_loop script_net transaction amount leaders st) = lastError st \<and>
   events (send_loop script_net transaction amount leaders st) =
     events st @ concat (map (\<lambda>a. Dialed a # replicate (nat amount) (Written a)) leaders)"
proof (induction leaders arbitrary: st)
  case Nil
  then show ?case by simp
next
  case (Cons leader rest)
  let ?st1 = "st\<lparr>events := events st @ [Dialed leader], world := ([], [])\<rparr>"
  let ?st2 = "write_loop script_net () leader transaction amount 0 ?st1"
  let ?st3 = "?st2\<lparr>world := conn_Close script_net (world ?st2) ()\<rparr>"
  have q1: "world ?st1 = ([], [])" by simp
  note w = quiet_write_loop [OF q1, of leader transaction amount 0]
  have q3: "world ?st3 = ([], [])" using w by (simp add: script_net_def)
  have step: "send_loop script_net transaction amount (leader # rest) st =
      send_loop script_net transaction amount rest ?st3"
    by (simp add: quiet_dial [OF Cons.prems] Let_def)
  note IH = Cons.IH [OF q3]
  show ?case
    unfolding step using IH w by (simp add: algebra_simps)
qed

subsection \<open>Claim C4: retries, skipping and the result of a send\<close>

text \<open>
  Claim C4, amended by a bound on the number of writes that succeed. The events
  of a send are, for each resolved address in turn, either four failed dials
  (three of them retries) and no write, the address skipped and the next one
  taken up, or at most three failed dials, the dial that connected and one write
  for each repeat; nothing else happens. \<^verbatim>\<open>lastError\<close> ends as the text of the
  last failed dial or write. When fewer writes succeed than the \<^verbatim>\<open>int\<close> counter
  can count before it wraps (\<open>2 ^ 32\<close> or \<open>2 ^ 64\<close> with the platform),
  \<^verbatim>\<open>SendRawTransaction\<close> returns \<^verbatim>\<open>nil\<close> exactly when some write succeeded, and
  otherwise an error with that last text.
\<close>

theorem SendRawTransaction_outcome:
  "fanout_events (nat (sint amount)) (GetLeaderSockets (LTPUCache tpuClient) (FanoutSlots tpuClient))
     (events (snd (SendRawTransaction net tpuClient transaction amount w))) \<and>
   lastError (snd (SendRawTransaction net tpuClient transaction amount w)) =
     last_error_text (events (snd (SendRawTransaction net tpuClient transaction amount w))) \<and>
   (length (filter is_Written (events (snd (SendRawTransaction net tpuClient transaction amount w))))
      < 2 ^ LENGTH('i) \<longrightarrow>
    fst (SendRawTransaction net tpuClient transaction (amount :: 'i::len word) w) =
      (if \<exists>a. Written a \<in> set (events (snd (SendRawTransaction net tpuClient transaction amount w)))
       then None
       else Some (last_error_text (events (snd (SendRawTransaction net tpuClient transaction amount w))))))"
proof (intro conjI impI)
  let ?st = "snd (SendRawTransaction net tpuClient transaction amount w)"
  show "fanout_events (nat (sint amount)) (GetLeaderSockets (LTPUCache tpuClient) (FanoutSlots tpuClient))
     (events ?st)"
    by (rule SendRawTransaction_events)
  have inv: "send_inv ?st" by (rule SendRawTransaction_inv)
  then show "lastError ?st = last_error_text (events ?st)" by (simp add: send_inv_def)
  assume small: "length (filter is_Written (events ?st)) < 2 ^ LENGTH('i)"
  have "fst (SendRawTransaction net tpuClient transaction amount w) = send_result ?st"
    by (simp add: SendRawTransaction_def Let_def)
  also have "\<dots> = (if \<exists>a. Written a \<in> set (events ?st) then None
                    else Some (last_error_text (events ?st)))"
    using inv small by (rule send_result_events)
  finally show "fst (SendRawTransaction net tpuClient transaction amount w) =
     (if \<exists>a. Written a \<in> set (events ?st) then None else Some (last_error_text (events ?st)))" .
qed

theorem SendRawTransaction_outcome_witness:
  "fst (SendRawTransaction script_net aab_client [1, 2] (2 :: 64 word)
       ([Some ''e1'', Some ''e2'', Some ''e3'', Some ''e4'', Some ''e5'', None], [Some ''w1'', None])) = None \<and>
   fst (SendRawTransaction script_net aab_client [1, 2] (1 :: 64 word)
       ([Some ''e1'', Some ''e2'', Some ''e3'', Some ''e4''], [Some ''w1''])) = Some ''w1'' \<and>
   fst (SendRawTransaction script_net aab_client [1, 2] (1 :: 64 word) ([], [Some ''w1''])) = None"
proof -
  let ?a = "SendRawTransaction script_net aab_client [1, 2] (2 :: 64 word)
       ([Some ''e1'', Some ''e2'', Some ''e3'', Some ''e4'', Some ''e5'', None], [Some ''w1'', None])"
  let ?b = "SendRawTransaction script_net aab_client [1, 2] (1 :: 64 word)
       ([Some ''e1'', Some ''e2'', Some ''e3'', Some ''e4''], [Some ''w1''])"
  let ?c = "SendRawTransaction script_net aab_client [1, 2] (1 :: 64 word) ([], [Some ''w1''])"
  have ha: "length (filter is_Written (events (snd ?a))) < 2 ^ LENGTH(64)"
    by (simp add: script_one_write)
  have hb: "length (filter is_Written (events (snd ?b))) < 2 ^ LENGTH(64)"
    by (simp add: script_all_fail)
  have hc: "length (filter is_Written (events (snd ?c))) < 2 ^ LENGTH(64)"
    by (simp add: script_second_address)
  note t = SendRawTransaction_outcome [THEN conjunct2, THEN conjunct2, THEN mp]
  have "fst ?a = (if \<exists>a. Written a \<in> set (events (snd ?a)) then None
                  else Some (last_error_text (events (snd ?a))))"
    using t [OF ha] .
  then have a: "fst ?a = None" by (simp add: script_one_write)
  have "fst ?b = (if \<exists>a. Written a \<in> set (events (snd ?b)) then None
                  else Some (last_error_text (events (snd ?b))))"
    using t [OF hb] .
  then have b: "fst ?b = Some ''w1''" by (simp add: script_all_fail last_error_text_def)
  have "fst ?c = (if \<exists>a. Written a \<in> set (events (snd ?c)) then None
                  else Some (last_error_text (events (snd ?c))))"
    using t [OF hc] .
  then have c: "fst ?c = None" by (simp add: script_second_address)
  from a b c show ?thesis by simp
qed

text \<open>
  Claim C4 as stated, without the bound, fails where the counter wraps: with a
  32-bit \<^verbatim>\<open>int\<close>, four addresses and \<open>2 ^ 30\<close> repeats that all succeed,
  \<^verbatim>\<open>successes\<close> is back at 0 after \<open>2 ^ 32\<close> successful writes and the send
  returns an error, with the empty text.
\<close>

theorem SendRawTransaction_wrapped_counter_counterexample:
  "fst (SendRawTransaction script_net four_client [] (2 ^ 30 :: 32 word) ([], [])) = Some [] \<and>
   Written ''addr1'' \<in> set (events (snd (SendRawTransaction script_net four_client [] (2 ^ 30 :: 32 word) ([], []))))"
proof -
  let ?leaders = "[''addr1'', ''addr2'', ''addr3'', ''addr4'']"
  let ?start = "send_start ([], []) :: (script, 32) send_state"
  let ?st = "send_loop script_net [] (sint (2 ^ 30 :: 32 word)) ?leaders ?start"
  have run: "SendRawTransaction script_net four_client [] (2 ^ 30 :: 32 word) ([], []) = (send_result ?st, ?st)"
    by (simp only: SendRawTransaction_def four_sockets Let_def)
  have amount: "sint (2 ^ 30 :: 32 word) = 2 ^ 30" by simp
  have q: "world ?start = ([], [])" by (simp add: send_start_def)
  note l = quiet_send_loop [OF q, of "[]" "sint (2 ^ 30 :: 32 word)" ?leaders]
  have "successes ?st = of_nat (4 * 2 ^ 30)"
    using l by (simp only: amount) (simp add: send_start_def)
  then have s: "successes ?st = 0" by simp
  have e: "lastError ?st = []" using l by (simp add: send_start_def)
  have pos: "0 < nat (sint (2 ^ 30 :: 32 word))" by (simp only: amount) simp
  have "events ?st = events ?start @
      concat (map (\<lambda>a. Dialed a # replicate (nat (sint (2 ^ 30 :: 32 word))) (Written a)) ?leaders)"
    using l by blast
  then have "Written ''addr1'' \<in> set (events ?st)"
    using pos by (simp only: set_append set_concat list.map list.set set_replicate_conv_if) auto
  with s e show ?thesis by (simp only: run fst_conv snd_conv send_result_def) simp
qed

subsection \<open>Claim C9: sends that write nothing\<close>




end
